theory Spec2Isabelle
  imports Main "HOL-Library.AList"
begin

section \<open>Tag reconciliation of pkg/cloud/services/eks/tags.go\<close>

subsection \<open>Go maps\<close>

text \<open>
  A Go \<^verbatim>\<open>map[string]string\<close> is an association list whose keys are distinct. The order of
  the list is the order in which one \<^verbatim>\<open>range\<close> statement visits the map, which Go leaves
  open: the theorems below hold for every such order. A lookup \<^verbatim>\<open>v, ok := m[k]\<close> is
  \<open>map_of m k\<close>, an assignment \<^verbatim>\<open>m[k] = v\<close> is \<open>AList.update k v m\<close>.
\<close>

type_synonym tagmap = "(string \<times> string) list"

definition wf_tagmap :: "tagmap \<Rightarrow> bool" where
  "wf_tagmap m = distinct (map fst m)"

subsection \<open>The tag differ\<close>

text \<open>
  \<^verbatim>\<open>getTagUpdates\<close> (lines 66-80): two loops, the first over the current tags collecting
  the keys that the desired tags lack, the second over the desired tags collecting the
  pairs that are new or changed.
\<close>

definition needsUpsert :: "tagmap \<Rightarrow> string \<Rightarrow> string \<Rightarrow> bool" where
  "needsUpsert currentTags key value =
     (case map_of currentTags key of None \<Rightarrow> True | Some currentV \<Rightarrow> value \<noteq> currentV)"

definition getTagUpdates :: "tagmap \<Rightarrow> tagmap \<Rightarrow> string list \<times> tagmap" where
  "getTagUpdates currentTags tags =
     (let untagKeys = fold (\<lambda>(key, _) untagKeys.
                               if map_of tags key = None then untagKeys @ [key] else untagKeys)
                           currentTags [];
          newTags = fold (\<lambda>(key, value) newTags.
                             if needsUpsert currentTags key value
                             then AList.update key value newTags else newTags)
                         tags []
      in (untagKeys, newTags))"

text \<open>
  What the tag APIs do with a diff, in the words of the specification: the keys to delete
  are removed, then the pairs to upsert are written.
\<close>

definition applyUpdates :: "tagmap \<Rightarrow> string list \<Rightarrow> tagmap \<Rightarrow> tagmap" where
  "applyUpdates current toDelete toUpsert =
     fold (\<lambda>(k, v) m. AList.update k v m) toUpsert (fold AList.delete toDelete current)"

subsection \<open>The differ with the exemption of the tags that EKS sets on a group\<close>

text \<open>
  \<^verbatim>\<open>getASGTagUpdates\<close> (lines 82-112). \<^verbatim>\<open>infrav1.ClusterAWSCloudProviderTagKey\<close> is
  declared in another package; it is the parameter \<open>cloudProviderTagKey\<close>.
\<close>

definition eksClusterNameTag :: string where
  "eksClusterNameTag = ''eks:cluster-name''"

definition eksNodeGroupNameTag :: string where
  "eksNodeGroupNameTag = ''eks:nodegroup-name''"

definition eksClusterAutoscalerEnabledTag :: string where
  "eksClusterAutoscalerEnabledTag = ''k8s.io/cluster-autoscaler/enabled''"

definition officialASGTagsByEKS :: "(string \<Rightarrow> string) \<Rightarrow> string \<Rightarrow> string list" where
  "officialASGTagsByEKS cloudProviderTagKey clusterName =
     [eksClusterNameTag,
      eksNodeGroupNameTag,
      ''k8s.io/cluster-autoscaler/'' @ clusterName,
      eksClusterAutoscalerEnabledTag,
      cloudProviderTagKey clusterName]"

text \<open>The inner loop of lines 94-100, leaving at the first match.\<close>

fun isOfficialTag :: "string list \<Rightarrow> string \<Rightarrow> bool" where
  "isOfficialTag [] k = False"
| "isOfficialTag (tag # rest) k = (if tag = k then True else isOfficialTag rest k)"

definition getASGTagUpdates ::
    "(string \<Rightarrow> string) \<Rightarrow> string \<Rightarrow> tagmap \<Rightarrow> tagmap \<Rightarrow> tagmap \<times> tagmap" where
  "getASGTagUpdates cloudProviderTagKey clusterName currentTags tags =
     (let official = officialASGTagsByEKS cloudProviderTagKey clusterName;
          tagsToDelete = fold (\<lambda>(k, v) tagsToDelete.
                                  if map_of tags k = None
                                  then (if \<not> isOfficialTag official k
                                        then AList.update k v tagsToDelete else tagsToDelete)
                                  else tagsToDelete)
                              currentTags [];
          tagsToAdd = fold (\<lambda>(key, value) tagsToAdd.
                               if needsUpsert currentTags key value
                               then AList.update key value tagsToAdd else tagsToAdd)
                           tags []
      in (tagsToDelete, tagsToAdd))"

subsection \<open>Errors, outcomes and the data of the AWS SDK\<close>

text \<open>
  A Go \<^verbatim>\<open>error\<close> value is an \<open>error option\<close>, \<open>None\<close> for \<^verbatim>\<open>nil\<close>;
  \<^verbatim>\<open>errors.Wrap(err, msg)\<close> is \<open>Wrap err msg\<close>. A pointer \<^verbatim>\<open>*string\<close> that the code only
  passes on or tests against \<^verbatim>\<open>nil\<close> is a \<open>string option\<close>. The records keep the fields
  of the SDK structures that the code reads, each under the name of its structure.
  Elements of the slices in a response are taken as the SDK decodes them, not
  \<^verbatim>\<open>nil\<close>, except where the code tests for \<^verbatim>\<open>nil\<close> or dereferences with \<^verbatim>\<open>*\<close>.
\<close>

datatype error = AWSError string | Wrap error string

datatype outcome = Return "error option" | Panic

datatype flow = Continue | Exit outcome

record ec2Tag =
  tag_Key :: "string option"
  tag_Value :: "string option"

record ebsInstanceBlockDevice =
  ebs_VolumeId :: "string option"

record instanceBlockDeviceMapping =
  bdm_Ebs :: "ebsInstanceBlockDevice option"

record ec2Instance =
  inst_InstanceId :: "string option"
  inst_Tags :: "ec2Tag option list"
  inst_BlockDeviceMappings :: "instanceBlockDeviceMapping option list"

record reservation =
  res_Instances :: "ec2Instance list"

record describeInstancesOutput =
  dio_Reservations :: "reservation list"
  dio_NextToken :: "string option"

record volume =
  vol_VolumeId :: "string option"
  vol_Tags :: "ec2Tag option list"

record describeVolumesOutput =
  dvo_Volumes :: "volume list"
  dvo_NextToken :: "string option"

record asgInstance =
  asgi_InstanceId :: "string option"

record tagDescription =
  td_Key :: "string option"
  td_Value :: "string option"

record autoScalingGroup =
  asg_AutoScalingGroupName :: "string option"
  asg_Instances :: "asgInstance list"
  asg_Tags :: "tagDescription option list"

record asgTag =
  asgt_Key :: "string option"
  asgt_PropagateAtLaunch :: "bool option"
  asgt_ResourceId :: "string option"
  asgt_ResourceType :: "string option"
  asgt_Value :: "string option"

record eksAutoScalingGroup =
  eksasg_Name :: "string option"

record nodegroupResources =
  AutoScalingGroups :: "eksAutoScalingGroup list"

record nodegroup =
  NodegroupArn :: "string option"
  NodegroupName :: "string option"
  ng_Tags :: "(string \<times> string option) list"
  Resources :: "nodegroupResources option"

record fargateProfile =
  FargateProfileArn :: "string option"
  fp_Tags :: "(string \<times> string option) list"

subsection \<open>The API clients and the service\<close>

text \<open>
  The code reaches AWS through three client interfaces. A run is observed as the list of
  the calls it has made, oldest first, each with its request as it is read when the call
  is made. A client operation answers from that history and the request, so that a
  response may depend on everything the run has done before.
\<close>

datatype call =
    EKS_TagResource "string option" tagmap
  | EKS_UntagResource "string option" "string list"
  | ASG_DescribeAutoScalingGroups "string option list"
  | ASG_CreateOrUpdateTags "asgTag list"
  | ASG_DeleteTags "asgTag list"
  | EC2_DescribeInstances "string option list"
  | EC2_DescribeVolumes "string option list"
  | EC2_CreateTags "string option list" "ec2Tag option list"
  | EC2_DeleteTags "string option list" "ec2Tag option list"

record eksClient =
  TagResource :: "call list \<Rightarrow> string option \<Rightarrow> tagmap \<Rightarrow> error option"
  UntagResource :: "call list \<Rightarrow> string option \<Rightarrow> string list \<Rightarrow> error option"

record autoscalingClient =
  DescribeAutoScalingGroups :: "call list \<Rightarrow> string option list \<Rightarrow> error + autoScalingGroup list"
  CreateOrUpdateTags :: "call list \<Rightarrow> asgTag list \<Rightarrow> error option"
  DeleteTagsASG :: "call list \<Rightarrow> asgTag list \<Rightarrow> error option"

record ec2Client =
  DescribeInstances :: "call list \<Rightarrow> string option list \<Rightarrow> error + describeInstancesOutput"
  DescribeVolumes :: "call list \<Rightarrow> string option list \<Rightarrow> error + describeVolumesOutput"
  CreateTags :: "call list \<Rightarrow> string option list \<Rightarrow> ec2Tag option list \<Rightarrow> error option"
  DeleteTags :: "call list \<Rightarrow> string option list \<Rightarrow> ec2Tag option list \<Rightarrow> error option"

text \<open>
  \<^verbatim>\<open>NodegroupService\<close> with the values of its scope. Three helpers that the code calls are
  declared in other files and are fields here: \<^verbatim>\<open>ngTags\<close>, \<^verbatim>\<open>describeASGs\<close> (it returns its
  result and the calls it has made) and \<^verbatim>\<open>infrav1.ClusterAWSCloudProviderTagKey\<close>. The
  logging calls of the scope have no effect on the run and are left out; an argument
  of theirs that dereferences a pointer is kept.
\<close>

record nodegroupService =
  ClusterName :: string
  AdditionalTags :: tagmap
  EKSClient :: eksClient
  AutoscalingClient :: autoscalingClient
  EC2Client :: ec2Client
  ngTags :: "string \<Rightarrow> tagmap \<Rightarrow> tagmap"
  describeASGs :: "call list \<Rightarrow> nodegroup \<Rightarrow> (error + autoScalingGroup option) \<times> call list"
  ClusterAWSCloudProviderTagKey :: "string \<Rightarrow> string"

subsection \<open>Addresses of variables\<close>

text \<open>
  The requests hold pointers to strings. A store maps the address of a variable to its
  value; \<open>alloc\<close> declares a variable, \<open>assign\<close> writes one. Which variable a
  \<^verbatim>\<open>for ... range\<close> statement writes is fixed by the Go version of the module, declared in
  \<^verbatim>\<open>go.mod\<close>: before Go 1.22 the statement has one variable for the whole loop
  (\<open>PerLoop\<close>), from Go 1.22 on a new one in each iteration (\<open>PerIteration\<close>). The
  comments at lines 233 and 254 of the source are written for the first.
\<close>

type_synonym addr = nat

record store =
  cells :: "addr \<Rightarrow> string option"
  nextFree :: addr

definition emptyStore :: store where
  "emptyStore = \<lparr>cells = (\<lambda>_. None), nextFree = 0\<rparr>"

definition alloc :: "string \<Rightarrow> store \<Rightarrow> addr \<times> store" where
  "alloc v h = (nextFree h, \<lparr>cells = (cells h)(nextFree h \<mapsto> v), nextFree = Suc (nextFree h)\<rparr>)"

definition assign :: "addr \<Rightarrow> string \<Rightarrow> store \<Rightarrow> store" where
  "assign a v h = h\<lparr>cells := (cells h)(a \<mapsto> v)\<rparr>"

definition deref :: "store \<Rightarrow> addr option \<Rightarrow> string option" where
  "deref h p = (case p of None \<Rightarrow> None | Some a \<Rightarrow> cells h a)"

datatype loopvars = PerLoop | PerIteration

record ec2TagPtr =
  Key :: "addr option"
  Value :: "addr option"

record asgTagPtr =
  Key_ptr :: "addr option"
  PropagateAtLaunch :: "bool option"
  ResourceId :: "string option"
  ResourceType :: "string option"
  Value_ptr :: "addr option"

definition readTag :: "store \<Rightarrow> ec2TagPtr \<Rightarrow> ec2Tag" where
  "readTag h t = \<lparr>tag_Key = deref h (Key t), tag_Value = deref h (Value t)\<rparr>"

definition readASGTag :: "store \<Rightarrow> asgTagPtr \<Rightarrow> asgTag" where
  "readASGTag h t =
     \<lparr>asgt_Key = deref h (Key_ptr t),
      asgt_PropagateAtLaunch = PropagateAtLaunch t,
      asgt_ResourceId = ResourceId t,
      asgt_ResourceType = ResourceType t,
      asgt_Value = deref h (Value_ptr t)\<rparr>"

text \<open>
  The store of \<^verbatim>\<open>updateECSTags\<close> once the two variables of its first loop are declared, and
  the requests whose pointers all lie below an address.
\<close>

definition initStore :: store where
  "initStore = \<lparr>cells = (\<lambda>_. None)(0 \<mapsto> [], Suc 0 \<mapsto> []), nextFree = Suc (Suc 0)\<rparr>"

definition ptrsBelow :: "nat \<Rightarrow> ec2TagPtr option \<Rightarrow> bool" where
  "ptrsBelow n t =
     (case t of None \<Rightarrow> True
      | Some p \<Rightarrow> (case Key p of None \<Rightarrow> True | Some a \<Rightarrow> a < n)
                \<and> (case Value p of None \<Rightarrow> True | Some a \<Rightarrow> a < n))"

definition asgPtrsBelow :: "nat \<Rightarrow> asgTagPtr \<Rightarrow> bool" where
  "asgPtrsBelow n t =
     ((case Key_ptr t of None \<Rightarrow> True | Some a \<Rightarrow> a < n)
      \<and> (case Value_ptr t of None \<Rightarrow> True | Some a \<Rightarrow> a < n))"

subsection \<open>Applying a diff\<close>

text \<open>
  \<^verbatim>\<open>aws.StringValueMap\<close> of the SDK copies the entries of a \<^verbatim>\<open>map[string]*string\<close> whose
  value is not \<^verbatim>\<open>nil\<close>.
\<close>

definition StringValueMap :: "(string \<times> string option) list \<Rightarrow> tagmap" where
  "StringValueMap src =
     fold (\<lambda>(k, val) dst. case val of None \<Rightarrow> dst | Some v \<Rightarrow> AList.update k v dst) src []"

text \<open>\<^verbatim>\<open>updateTags\<close> (lines 277-303).\<close>

definition updateTags ::
    "eksClient \<Rightarrow> string option \<Rightarrow> tagmap \<Rightarrow> tagmap \<Rightarrow> call list \<Rightarrow> error option \<times> call list" where
  "updateTags client arn existingTags desiredTags tr =
     (let (untagKeys, newTags) = getTagUpdates existingTags desiredTags in
      case (if 0 < length newTags
            then (TagResource client tr arn newTags, tr @ [EKS_TagResource arn newTags])
            else (None, tr)) of
        (Some err, tr1) \<Rightarrow> (Some err, tr1)
      | (None, tr1) \<Rightarrow>
          if 0 < length untagKeys
          then (UntagResource client tr1 arn untagKeys, tr1 @ [EKS_UntagResource arn untagKeys])
          else (None, tr1))"

text \<open>
  The loop of lines 309-314 takes the addresses of its variables \<^verbatim>\<open>k\<close> and \<^verbatim>\<open>v\<close>. With one
  variable for the loop, \<open>ak\<close> and \<open>av\<close> are their addresses and each iteration assigns
  to them; with a variable in each iteration, each iteration declares two.
\<close>

fun createTagsLoop ::
    "loopvars \<Rightarrow> addr \<Rightarrow> addr \<Rightarrow> tagmap \<Rightarrow> store \<Rightarrow> ec2TagPtr option list
       \<Rightarrow> store \<times> ec2TagPtr option list" where
  "createTagsLoop lv ak av [] h tags = (h, tags)"
| "createTagsLoop lv ak av ((k, v) # rest) h tags =
     (case lv of
        PerLoop \<Rightarrow>
          createTagsLoop lv ak av rest (assign av v (assign ak k h))
            (tags @ [Some \<lparr>Key = Some ak, Value = Some av\<rparr>])
      | PerIteration \<Rightarrow>
          (let (ak', h1) = alloc k h; (av', h2) = alloc v h1
           in createTagsLoop lv ak av rest h2 (tags @ [Some \<lparr>Key = Some ak', Value = Some av'\<rparr>])))"

text \<open>The request as \<^verbatim>\<open>CreateTags\<close> reads it, after the loop.\<close>

definition createTagsInput :: "loopvars \<Rightarrow> tagmap \<Rightarrow> ec2Tag option list" where
  "createTagsInput lv newTags =
     (let (ak, h0) = alloc [] emptyStore; (av, h1) = alloc [] h0;
          (h, tags) = createTagsLoop lv ak av newTags h1 []
      in map (map_option (readTag h)) tags)"

text \<open>
  The loop of lines 326-329 writes the entries of a slice made with \<^verbatim>\<open>len(untagKeys)\<close>
  \<^verbatim>\<open>nil\<close> entries, each with the address of its variable \<^verbatim>\<open>k\<close>.
\<close>

fun deleteTagsLoop ::
    "loopvars \<Rightarrow> addr \<Rightarrow> nat \<Rightarrow> string list \<Rightarrow> store \<Rightarrow> ec2TagPtr option list
       \<Rightarrow> store \<times> ec2TagPtr option list" where
  "deleteTagsLoop lv ak i [] h tags = (h, tags)"
| "deleteTagsLoop lv ak i (k # rest) h tags =
     (case lv of
        PerLoop \<Rightarrow>
          deleteTagsLoop lv ak (Suc i) rest (assign ak k h)
            (tags[i := Some \<lparr>Key = Some ak, Value = None\<rparr>])
      | PerIteration \<Rightarrow>
          (let (ak', h1) = alloc k h
           in deleteTagsLoop lv ak (Suc i) rest h1 (tags[i := Some \<lparr>Key = Some ak', Value = None\<rparr>])))"

definition deleteTagsInput :: "loopvars \<Rightarrow> string list \<Rightarrow> ec2Tag option list" where
  "deleteTagsInput lv untagKeys =
     (let (ak, h0) = alloc [] emptyStore;
          (h, tags) = deleteTagsLoop lv ak 0 untagKeys h0 (replicate (length untagKeys) None)
      in map (map_option (readTag h)) tags)"

text \<open>\<^verbatim>\<open>updateECSTags\<close> (lines 305-341).\<close>

definition updateECSTags ::
    "loopvars \<Rightarrow> ec2Client \<Rightarrow> string option list \<Rightarrow> tagmap \<Rightarrow> tagmap \<Rightarrow> call list
       \<Rightarrow> error option \<times> call list" where
  "updateECSTags lv client resources existingTags desiredTags tr =
     (let (untagKeys, newTags) = getTagUpdates existingTags desiredTags in
      case (if 0 < length newTags
            then (let tags = createTagsInput lv newTags
                  in (CreateTags client tr resources tags, tr @ [EC2_CreateTags resources tags]))
            else (None, tr)) of
        (Some err, tr1) \<Rightarrow> (Some err, tr1)
      | (None, tr1) \<Rightarrow>
          if 0 < length untagKeys
          then (let tags = deleteTagsInput lv untagKeys
                in (DeleteTags client tr1 resources tags, tr1 @ [EC2_DeleteTags resources tags]))
          else (None, tr1))"

subsection \<open>Instances and volumes of a nodegroup\<close>

text \<open>
  The loops of lines 149-154 and 192-197 copy the tags of a resource that have a key and
  a value into \<^verbatim>\<open>tags\<close> and into \<^verbatim>\<open>desired\<close>; the loops of lines 155-157 and 198-200 then
  write the tags of the nodegroup over \<^verbatim>\<open>desired\<close>.
\<close>

definition copyTags :: "ec2Tag option list \<Rightarrow> tagmap \<times> tagmap \<Rightarrow> tagmap \<times> tagmap" where
  "copyTags ts =
     fold (\<lambda>tag (tags, desired).
             case tag of
               None \<Rightarrow> (tags, desired)
             | Some t \<Rightarrow>
                 (case tag_Key t of
                    None \<Rightarrow> (tags, desired)
                  | Some k \<Rightarrow>
                      (case tag_Value t of
                         None \<Rightarrow> (tags, desired)
                       | Some v \<Rightarrow> (AList.update k v tags, AList.update k v desired)))) ts"

definition overlayTags :: "tagmap \<Rightarrow> tagmap \<Rightarrow> tagmap" where
  "overlayTags ngtags desired = fold (\<lambda>(k, v) desired. AList.update k v desired) ngtags desired"

text \<open>The loop of lines 163-167.\<close>

definition volumeIdsOf :: "instanceBlockDeviceMapping option list \<Rightarrow> string option list" where
  "volumeIdsOf bs =
     fold (\<lambda>b volumeIds.
             case b of
               None \<Rightarrow> volumeIds
             | Some m \<Rightarrow>
                 (case bdm_Ebs m of
                    None \<Rightarrow> volumeIds
                  | Some e \<Rightarrow>
                      (case ebs_VolumeId e of
                         None \<Rightarrow> volumeIds
                       | Some vid \<Rightarrow> volumeIds @ [Some vid]))) bs []"

text \<open>
  \<^verbatim>\<open>reconcileEBSVolumeTags\<close> (lines 180-210). The loop over the volumes of the response
  is \<open>volumesLoop\<close>; the enclosing \<^verbatim>\<open>for { ... }\<close> is \<open>volumePagesLoop\<close>, which spends
  one unit of fuel in each iteration and answers \<open>None\<close> when the fuel is used up.
\<close>

fun volumesLoop ::
    "loopvars \<Rightarrow> nodegroupService \<Rightarrow> nodegroup \<Rightarrow> tagmap \<Rightarrow> volume list \<Rightarrow> call list
       \<Rightarrow> flow \<times> call list" where
  "volumesLoop lv s ng ngtags [] tr = (Continue, tr)"
| "volumesLoop lv s ng ngtags (volume # rest) tr =
     (case NodegroupName ng of
        None \<Rightarrow> (Exit Panic, tr)
      | Some name \<Rightarrow>
          (let desired0 = AList.update eksNodeGroupNameTag name
                            (AList.update eksClusterNameTag (ClusterName s) []);
               (tags, desired1) = copyTags (vol_Tags volume) ([], desired0);
               desired = overlayTags ngtags desired1
           in case updateECSTags lv (EC2Client s) [vol_VolumeId volume] tags desired tr of
                (Some err, tr') \<Rightarrow> (Exit (Return (Some err)), tr')
              | (None, tr') \<Rightarrow> volumesLoop lv s ng ngtags rest tr'))"

fun volumePagesLoop ::
    "nat \<Rightarrow> loopvars \<Rightarrow> nodegroupService \<Rightarrow> nodegroup \<Rightarrow> tagmap \<Rightarrow> describeVolumesOutput
       \<Rightarrow> call list \<Rightarrow> outcome option \<times> call list" where
  "volumePagesLoop 0 lv s ng ngtags output tr = (None, tr)"
| "volumePagesLoop (Suc fuel) lv s ng ngtags output tr =
     (case volumesLoop lv s ng ngtags (dvo_Volumes output) tr of
        (Exit out, tr') \<Rightarrow> (Some out, tr')
      | (Continue, tr') \<Rightarrow>
          if dvo_NextToken output = None then (Some (Return None), tr')
          else volumePagesLoop fuel lv s ng ngtags output tr')"

definition reconcileEBSVolumeTags ::
    "nat \<Rightarrow> loopvars \<Rightarrow> nodegroupService \<Rightarrow> string option list \<Rightarrow> nodegroup \<Rightarrow> call list
       \<Rightarrow> outcome option \<times> call list" where
  "reconcileEBSVolumeTags fuel lv s volumeIds ng tr =
     (let ngtags = ngTags s (ClusterName s) (AdditionalTags s) in
      case DescribeVolumes (EC2Client s) tr volumeIds of
        Inl err \<Rightarrow>
          (Some (Return (Some (Wrap err ''failed to describe Volumes''))),
           tr @ [EC2_DescribeVolumes volumeIds])
      | Inr output \<Rightarrow>
          volumePagesLoop fuel lv s ng ngtags output (tr @ [EC2_DescribeVolumes volumeIds]))"

text \<open>
  \<^verbatim>\<open>reconcileInstanceTags\<close> (lines 122-178): the loop over the instances of a reservation,
  the loop over the reservations, and the enclosing \<^verbatim>\<open>for { ... }\<close> with fuel. The volumes
  of an instance are reconciled with the same fuel.
\<close>

fun instancesLoop ::
    "nat \<Rightarrow> loopvars \<Rightarrow> nodegroupService \<Rightarrow> nodegroup \<Rightarrow> tagmap \<Rightarrow> ec2Instance list
       \<Rightarrow> call list \<Rightarrow> flow option \<times> call list" where
  "instancesLoop fuel lv s ng ngtags [] tr = (Some Continue, tr)"
| "instancesLoop fuel lv s ng ngtags (inst # rest) tr =
     (let (tags, desired0) = copyTags (inst_Tags inst) ([], []);
          desired = overlayTags ngtags desired0
      in case updateECSTags lv (EC2Client s) [inst_InstanceId inst] tags desired tr of
           (Some err, tr1) \<Rightarrow> (Some (Exit (Return (Some err))), tr1)
         | (None, tr1) \<Rightarrow>
             (let volumeIds = volumeIdsOf (inst_BlockDeviceMappings inst)
              in case reconcileEBSVolumeTags fuel lv s volumeIds ng tr1 of
                   (None, tr2) \<Rightarrow> (None, tr2)
                 | (Some (Return (Some err)), tr2) \<Rightarrow> (Some (Exit (Return (Some err))), tr2)
                 | (Some Panic, tr2) \<Rightarrow> (Some (Exit Panic), tr2)
                 | (Some (Return None), tr2) \<Rightarrow> instancesLoop fuel lv s ng ngtags rest tr2))"

fun reservationsLoop ::
    "nat \<Rightarrow> loopvars \<Rightarrow> nodegroupService \<Rightarrow> nodegroup \<Rightarrow> tagmap \<Rightarrow> reservation list
       \<Rightarrow> call list \<Rightarrow> flow option \<times> call list" where
  "reservationsLoop fuel lv s ng ngtags [] tr = (Some Continue, tr)"
| "reservationsLoop fuel lv s ng ngtags (r # rest) tr =
     (case instancesLoop fuel lv s ng ngtags (res_Instances r) tr of
        (Some Continue, tr') \<Rightarrow> reservationsLoop fuel lv s ng ngtags rest tr'
      | (other, tr') \<Rightarrow> (other, tr'))"

fun instancePagesLoop ::
    "nat \<Rightarrow> nat \<Rightarrow> loopvars \<Rightarrow> nodegroupService \<Rightarrow> nodegroup \<Rightarrow> tagmap
       \<Rightarrow> describeInstancesOutput \<Rightarrow> call list \<Rightarrow> outcome option \<times> call list" where
  "instancePagesLoop 0 fuel lv s ng ngtags output tr = (None, tr)"
| "instancePagesLoop (Suc n) fuel lv s ng ngtags output tr =
     (case reservationsLoop fuel lv s ng ngtags (dio_Reservations output) tr of
        (None, tr') \<Rightarrow> (None, tr')
      | (Some (Exit out), tr') \<Rightarrow> (Some out, tr')
      | (Some Continue, tr') \<Rightarrow>
          if dio_NextToken output = None then (Some (Return None), tr')
          else instancePagesLoop n fuel lv s ng ngtags output tr')"

definition reconcileInstanceTags ::
    "nat \<Rightarrow> loopvars \<Rightarrow> nodegroupService \<Rightarrow> nodegroup \<Rightarrow> call list
       \<Rightarrow> outcome option \<times> call list" where
  "reconcileInstanceTags fuel lv s ng tr =
     (let ngtags = ngTags s (ClusterName s) (AdditionalTags s) in
      case Resources ng of
        None \<Rightarrow> (Some Panic, tr)
      | Some resources \<Rightarrow>
          (let names = map eksasg_Name (AutoScalingGroups resources);
               tr1 = tr @ [ASG_DescribeAutoScalingGroups names]
           in case DescribeAutoScalingGroups (AutoscalingClient s) tr names of
                Inl err \<Rightarrow>
                  (Some (Return (Some (Wrap err
                     ''failed to describe AutoScalingGroup for nodegroup''))), tr1)
              | Inr groups \<Rightarrow>
                  (let ids = concat (map (\<lambda>group. map asgi_InstanceId (asg_Instances group)) groups);
                       tr2 = tr1 @ [EC2_DescribeInstances ids]
                   in case DescribeInstances (EC2Client s) tr1 ids of
                        Inl err \<Rightarrow>
                          (Some (Return (Some (Wrap err ''failed to describe Instances''))), tr2)
                      | Inr output \<Rightarrow> instancePagesLoop fuel fuel lv s ng ngtags output tr2)))"

text \<open>\<^verbatim>\<open>NodegroupService.reconcileTags\<close> (lines 114-120).\<close>

definition NodegroupService_reconcileTags ::
    "nat \<Rightarrow> loopvars \<Rightarrow> nodegroupService \<Rightarrow> nodegroup \<Rightarrow> call list
       \<Rightarrow> outcome option \<times> call list" where
  "NodegroupService_reconcileTags fuel lv s ng tr =
     (let tags = ngTags s (ClusterName s) (AdditionalTags s) in
      case updateTags (EKSClient s) (NodegroupArn ng) (StringValueMap (ng_Tags ng)) tags tr of
        (Some err, tr') \<Rightarrow> (Some (Return (Some err)), tr')
      | (None, tr') \<Rightarrow> reconcileInstanceTags fuel lv s ng tr')"

text \<open>\<^verbatim>\<open>FargateService.reconcileTags\<close> (lines 272-275), with the same scope values.\<close>

definition FargateService_reconcileTags ::
    "nodegroupService \<Rightarrow> fargateProfile \<Rightarrow> call list \<Rightarrow> error option \<times> call list" where
  "FargateService_reconcileTags s fp tr =
     (let tags = ngTags s (ClusterName s) (AdditionalTags s)
      in updateTags (EKSClient s) (FargateProfileArn fp) (StringValueMap (fp_Tags fp)) tags tr)"

subsection \<open>The tags of the Auto Scaling Group\<close>

text \<open>\<^verbatim>\<open>tagDescriptionsToMap\<close> (lines 212-218); \<open>None\<close> is the panic of a \<^verbatim>\<open>nil\<close> dereference.\<close>

fun tagDescriptionsLoop :: "tagDescription option list \<Rightarrow> tagmap \<Rightarrow> tagmap option" where
  "tagDescriptionsLoop [] tags = Some tags"
| "tagDescriptionsLoop (v # rest) tags =
     (case v of
        None \<Rightarrow> None
      | Some d \<Rightarrow>
          (case td_Key d of
             None \<Rightarrow> None
           | Some k \<Rightarrow>
               (case td_Value d of
                  None \<Rightarrow> None
                | Some x \<Rightarrow> tagDescriptionsLoop rest (AList.update k x tags))))"

definition tagDescriptionsToMap :: "tagDescription option list \<Rightarrow> tagmap option" where
  "tagDescriptionsToMap input = tagDescriptionsLoop input []"

text \<open>
  The loops of lines 232-244 and 253-262 copy the loop variables into \<^verbatim>\<open>kCopy\<close> and
  \<^verbatim>\<open>vCopy\<close>, declared in the body, and take the addresses of the copies.
\<close>

fun createOrUpdateTagsLoop ::
    "autoScalingGroup \<Rightarrow> tagmap \<Rightarrow> store \<Rightarrow> asgTagPtr list \<Rightarrow> store \<times> asgTagPtr list" where
  "createOrUpdateTagsLoop asg [] h tags = (h, tags)"
| "createOrUpdateTagsLoop asg ((k, v) # rest) h tags =
     (let (kCopy, h1) = alloc k h; (vCopy, h2) = alloc v h1
      in createOrUpdateTagsLoop asg rest h2
           (tags @ [\<lparr>Key_ptr = Some kCopy,
                      PropagateAtLaunch = Some True,
                      ResourceId = asg_AutoScalingGroupName asg,
                      ResourceType = Some ''auto-scaling-group'',
                      Value_ptr = Some vCopy\<rparr>]))"

definition createOrUpdateTagsInput :: "autoScalingGroup \<Rightarrow> tagmap \<Rightarrow> asgTag list" where
  "createOrUpdateTagsInput asg tagsToAdd =
     (let (h, tags) = createOrUpdateTagsLoop asg tagsToAdd emptyStore []
      in map (readASGTag h) tags)"

fun deleteASGTagsLoop ::
    "autoScalingGroup \<Rightarrow> tagmap \<Rightarrow> store \<Rightarrow> asgTagPtr list \<Rightarrow> store \<times> asgTagPtr list" where
  "deleteASGTagsLoop asg [] h tags = (h, tags)"
| "deleteASGTagsLoop asg ((k, v) # rest) h tags =
     (let (kCopy, h1) = alloc k h
      in deleteASGTagsLoop asg rest h1
           (tags @ [\<lparr>Key_ptr = Some kCopy,
                      PropagateAtLaunch = None,
                      ResourceId = asg_AutoScalingGroupName asg,
                      ResourceType = Some ''auto-scaling-group'',
                      Value_ptr = None\<rparr>]))"

definition deleteASGTagsInput :: "autoScalingGroup \<Rightarrow> tagmap \<Rightarrow> asgTag list" where
  "deleteASGTagsInput asg tagsToDelete =
     (let (h, tags) = deleteASGTagsLoop asg tagsToDelete emptyStore []
      in map (readASGTag h) tags)"

text \<open>\<^verbatim>\<open>reconcileASGTags\<close> (lines 220-270).\<close>

definition reconcileASGTags ::
    "nodegroupService \<Rightarrow> nodegroup \<Rightarrow> call list \<Rightarrow> outcome \<times> call list" where
  "reconcileASGTags s ng tr =
     (case NodegroupName ng of
        None \<Rightarrow> (Panic, tr)
      | Some name \<Rightarrow>
          (case describeASGs s tr ng of
             (Inl err, made) \<Rightarrow>
               (Return (Some (Wrap err ''failed to describe ASG for nodegroup'')), tr @ made)
           | (Inr None, made) \<Rightarrow> (Panic, tr @ made)
           | (Inr (Some asg), made) \<Rightarrow>
               (case tagDescriptionsToMap (asg_Tags asg) of
                  None \<Rightarrow> (Panic, tr @ made)
                | Some currentTags \<Rightarrow>
                    (let (tagsToDelete, tagsToAdd) =
                           getASGTagUpdates (ClusterAWSCloudProviderTagKey s) (ClusterName s)
                             currentTags (AdditionalTags s);
                         tr1 = tr @ made
                     in case (if 0 < length tagsToAdd
                              then (let input = createOrUpdateTagsInput asg tagsToAdd
                                    in (CreateOrUpdateTags (AutoscalingClient s) tr1 input,
                                        tr1 @ [ASG_CreateOrUpdateTags input]))
                              else (None, tr1)) of
                          (Some err, tr2) \<Rightarrow>
                            (Return (Some (Wrap err
                               (''failed to add tags to nodegroup'' @ [CHR 0x27]
                                  @ ''s AutoScalingGroup''))), tr2)
                        | (None, tr2) \<Rightarrow>
                            if 0 < length tagsToDelete
                            then (let input = deleteASGTagsInput asg tagsToDelete
                                  in case DeleteTagsASG (AutoscalingClient s) tr2 input of
                                       Some err \<Rightarrow>
                                         (Return (Some (Wrap err
                                            (''failed to delete tags to nodegroup'' @ [CHR 0x27]
                                               @ ''s AutoScalingGroup''))),
                                          tr2 @ [ASG_DeleteTags input])
                                     | None \<Rightarrow> (Return None, tr2 @ [ASG_DeleteTags input]))
                            else (Return None, tr2)))))"



subsection \<open>Observations on a run\<close>

text \<open>The calls a function has added to the history \<open>tr\<close> it started from.\<close>

definition callsSince :: "call list \<Rightarrow> call list \<Rightarrow> call list" where
  "callsSince tr tr' = drop (length tr) tr'"

definition isDeleteTags :: "call \<Rightarrow> bool" where
  "isDeleteTags c = (case c of EC2_DeleteTags rs ts \<Rightarrow> True | _ \<Rightarrow> False)"

definition isDescribeInstances :: "call \<Rightarrow> bool" where
  "isDescribeInstances c = (case c of EC2_DescribeInstances ids \<Rightarrow> True | _ \<Rightarrow> False)"

definition isASGTagUpdate :: "call \<Rightarrow> bool" where
  "isASGTagUpdate c =
     (case c of ASG_CreateOrUpdateTags ts \<Rightarrow> True | ASG_DeleteTags ts \<Rightarrow> True | _ \<Rightarrow> False)"

definition propagatesAtLaunch :: "call \<Rightarrow> bool" where
  "propagatesAtLaunch c =
     (case c of
        ASG_CreateOrUpdateTags input \<Rightarrow> list_all (\<lambda>t. asgt_PropagateAtLaunch t = Some True) input
      | _ \<Rightarrow> True)"

text \<open>
  The tags that \<^verbatim>\<open>reconcileInstanceTags\<close> and \<^verbatim>\<open>reconcileEBSVolumeTags\<close> hand to
  \<^verbatim>\<open>updateECSTags\<close> for one instance and one volume, and the call that results when no
  call fails.
\<close>

definition instanceNewTags :: "tagmap \<Rightarrow> ec2Instance \<Rightarrow> tagmap" where
  "instanceNewTags ngtags inst =
     (let (tags, desired0) = copyTags (inst_Tags inst) ([], [])
      in snd (getTagUpdates tags (overlayTags ngtags desired0)))"

definition volumeNewTags :: "string \<Rightarrow> string \<Rightarrow> tagmap \<Rightarrow> volume \<Rightarrow> tagmap" where
  "volumeNewTags clusterName name ngtags vol =
     (let desired0 = AList.update eksNodeGroupNameTag name
                       (AList.update eksClusterNameTag clusterName []);
          (tags, desired1) = copyTags (vol_Tags vol) ([], desired0)
      in snd (getTagUpdates tags (overlayTags ngtags desired1)))"

definition createTagsCalls :: "loopvars \<Rightarrow> string option \<Rightarrow> tagmap \<Rightarrow> call list" where
  "createTagsCalls lv resource newTags =
     (if newTags = [] then [] else [EC2_CreateTags [resource] (createTagsInput lv newTags)])"

text \<open>
  The keys that the differ returns for deletion for one instance and for one volume, and
  the runs from a history \<open>tr\<close> to a history \<open>tr'\<close> that add only calls of one kind.
\<close>

definition instanceUntagKeys :: "tagmap \<Rightarrow> ec2Instance \<Rightarrow> string list" where
  "instanceUntagKeys ngtags inst =
     (let (tags, desired0) = copyTags (inst_Tags inst) ([], [])
      in fst (getTagUpdates tags (overlayTags ngtags desired0)))"

definition volumeUntagKeys :: "string \<Rightarrow> string \<Rightarrow> tagmap \<Rightarrow> volume \<Rightarrow> string list" where
  "volumeUntagKeys clusterName name ngtags vol =
     (let desired0 = AList.update eksNodeGroupNameTag name
                       (AList.update eksClusterNameTag clusterName []);
          (tags, desired1) = copyTags (vol_Tags vol) ([], desired0)
      in fst (getTagUpdates tags (overlayTags ngtags desired1)))"

definition isCreateTagsOrDescribeVolumes :: "call \<Rightarrow> bool" where
  "isCreateTagsOrDescribeVolumes c =
     (case c of EC2_CreateTags rs ts \<Rightarrow> True | EC2_DescribeVolumes ids \<Rightarrow> True | _ \<Rightarrow> False)"

definition madeOnly :: "(call \<Rightarrow> bool) \<Rightarrow> call list \<Rightarrow> call list \<Rightarrow> bool" where
  "madeOnly Q tr tr' = (take (length tr) tr' = tr \<and> list_all Q (drop (length tr) tr'))"

text \<open>
  The kinds of call that \<^verbatim>\<open>reconcileInstanceTags\<close> makes, and those that \<^verbatim>\<open>updateTags\<close>
  makes.
\<close>

definition isDescribeOrCreateTags :: "call \<Rightarrow> bool" where
  "isDescribeOrCreateTags c =
     (case c of
        ASG_DescribeAutoScalingGroups names \<Rightarrow> True
      | EC2_DescribeInstances ids \<Rightarrow> True
      | EC2_DescribeVolumes ids \<Rightarrow> True
      | EC2_CreateTags rs ts \<Rightarrow> True
      | _ \<Rightarrow> False)"

definition isEKSTagCall :: "call \<Rightarrow> bool" where
  "isEKSTagCall c =
     (case c of EKS_TagResource arn ts \<Rightarrow> True | EKS_UntagResource arn ks \<Rightarrow> True | _ \<Rightarrow> False)"

subsection \<open>Example services\<close>

definition exCloudProviderTagKey :: "string \<Rightarrow> string" where
  "exCloudProviderTagKey name = ''kubernetes.io/cluster/'' @ name"

definition exNgTags :: "string \<Rightarrow> tagmap \<Rightarrow> tagmap" where
  "exNgTags name additional = AList.update (exCloudProviderTagKey name) ''owned'' additional"

definition okEKS :: eksClient where
  "okEKS = \<lparr>TagResource = (\<lambda>h arn tags. None), UntagResource = (\<lambda>h arn keys. None)\<rparr>"

definition denyingEKS :: eksClient where
  "denyingEKS = \<lparr>TagResource = (\<lambda>h arn tags. Some (AWSError ''AccessDenied'')),
                 UntagResource = (\<lambda>h arn keys. None)\<rparr>"


definition exGroup :: "string \<Rightarrow> string \<Rightarrow> autoScalingGroup" where
  "exGroup name iid =
     \<lparr>asg_AutoScalingGroupName = Some name,
      asg_Instances = [\<lparr>asgi_InstanceId = Some iid\<rparr>],
      asg_Tags = [Some \<lparr>td_Key = Some ''eks:cluster-name'', td_Value = Some ''c1''\<rparr>]\<rparr>"

definition exASG :: autoscalingClient where
  "exASG = \<lparr>DescribeAutoScalingGroups =
              (\<lambda>h names. Inr [exGroup ''asg-1'' ''i-1'', exGroup ''asg-2'' ''i-2'']),
            CreateOrUpdateTags = (\<lambda>h ts. None),
            DeleteTagsASG = (\<lambda>h ts. None)\<rparr>"

definition exInstance :: "string \<Rightarrow> string \<Rightarrow> ec2Tag option list \<Rightarrow> ec2Instance" where
  "exInstance iid vid tags =
     \<lparr>inst_InstanceId = Some iid,
      inst_Tags = tags,
      inst_BlockDeviceMappings = [Some \<lparr>bdm_Ebs = Some \<lparr>ebs_VolumeId = Some vid\<rparr>\<rparr>]\<rparr>"

text \<open>
  An EC2 client whose calls all succeed: two instances in two reservations, each with one
  volume, with the given tags on the instances and on the volumes, on a single page.
\<close>

definition exEC2 :: "ec2Tag option list \<Rightarrow> ec2Tag option list \<Rightarrow> ec2Client" where
  "exEC2 itags vtags =
     \<lparr>DescribeInstances =
        (\<lambda>h ids. Inr \<lparr>dio_Reservations =
                         [\<lparr>res_Instances = [exInstance ''i-1'' ''vol-1'' itags]\<rparr>,
                          \<lparr>res_Instances = [exInstance ''i-2'' ''vol-2'' itags]\<rparr>],
                       dio_NextToken = None\<rparr>),
      DescribeVolumes =
        (\<lambda>h ids. Inr \<lparr>dvo_Volumes = map (\<lambda>vid. \<lparr>vol_VolumeId = vid, vol_Tags = vtags\<rparr>) ids,
                       dvo_NextToken = None\<rparr>),
      CreateTags = (\<lambda>h rs ts. None),
      DeleteTags = (\<lambda>h rs ts. None)\<rparr>"

definition denyingEC2 :: ec2Client where
  "denyingEC2 = (exEC2 [] [])\<lparr>CreateTags := (\<lambda>h rs ts. Some (AWSError ''AccessDenied''))\<rparr>"


text \<open>
  An EC2 client that answers \<^verbatim>\<open>DescribeInstances\<close> in three pages, one for each call made
  so far: the first two hold one instance each and carry a token for the next page, the
  third is empty and carries none.
\<close>

definition pagedEC2 :: ec2Client where
  "pagedEC2 =
     (exEC2 [] [])\<lparr>DescribeInstances :=
        (\<lambda>h ids.
           let asked = length (filter isDescribeInstances h);
               bare = (\<lambda>iid. \<lparr>inst_InstanceId = Some iid, inst_Tags = [],
                               inst_BlockDeviceMappings = []\<rparr>);
               page = (if asked = 0 then [bare ''i-1'']
                       else if asked = 1 then [bare ''i-2''] else [])
           in Inr \<lparr>dio_Reservations = [\<lparr>res_Instances = page\<rparr>],
                   dio_NextToken = (if asked < 2 then Some ''next'' else None)\<rparr>)\<rparr>"

text \<open>An EC2 client that answers \<^verbatim>\<open>DescribeVolumes\<close> with a page that carries a token.\<close>

definition pagedVolumesEC2 :: ec2Client where
  "pagedVolumesEC2 =
     (exEC2 [] [])\<lparr>DescribeVolumes :=
        (\<lambda>h ids. Inr \<lparr>dvo_Volumes = [\<lparr>vol_VolumeId = Some ''vol-1'', vol_Tags = []\<rparr>],
                       dvo_NextToken = Some ''next''\<rparr>)\<rparr>"

definition exService :: "ec2Client \<Rightarrow> nodegroupService" where
  "exService ec2 =
     \<lparr>ClusterName = ''c1'',
      AdditionalTags = [(''team'', ''a'')],
      EKSClient = okEKS,
      AutoscalingClient = exASG,
      EC2Client = ec2,
      ngTags = exNgTags,
      describeASGs = (\<lambda>h ng. (Inr (Some (exGroup ''asg-1'' ''i-1'')),
                               [ASG_DescribeAutoScalingGroups [Some ''asg-1'']])),
      ClusterAWSCloudProviderTagKey = exCloudProviderTagKey\<rparr>"

definition exNodegroup :: nodegroup where
  "exNodegroup =
     \<lparr>NodegroupArn = Some ''arn:ng-1'',
      NodegroupName = Some ''ng-1'',
      ng_Tags = [(''team'', Some ''a''), (''kubernetes.io/cluster/c1'', Some ''owned'')],
      Resources = Some \<lparr>AutoScalingGroups =
                         [\<lparr>eksasg_Name = Some ''asg-1''\<rparr>, \<lparr>eksasg_Name = Some ''asg-2''\<rparr>]\<rparr>\<rparr>"

definition exNodegroupTags :: "ec2Tag option list" where
  "exNodegroupTags =
     [Some \<lparr>tag_Key = Some ''team'', tag_Value = Some ''a''\<rparr>,
      Some \<lparr>tag_Key = Some ''kubernetes.io/cluster/c1'', tag_Value = Some ''owned''\<rparr>]"

definition exVolumeTags :: "ec2Tag option list" where
  "exVolumeTags =
     [Some \<lparr>tag_Key = Some ''eks:cluster-name'', tag_Value = Some ''c1''\<rparr>,
      Some \<lparr>tag_Key = Some ''eks:nodegroup-name'', tag_Value = Some ''ng-1''\<rparr>]
     @ exNodegroupTags"









section \<open>Properties of the differ\<close>

subsection \<open>The two loops of the differ in closed form\<close>

lemma untag_fold:
  "fold (\<lambda>(key, _) untagKeys. if map_of tags key = None then untagKeys @ [key] else untagKeys) cur acc
     = acc @ filter (\<lambda>key. map_of tags key = None) (map fst cur)"
  by (induction cur arbitrary: acc) (auto split: prod.splits)

lemma update_fresh: "k \<notin> fst ` set acc \<Longrightarrow> AList.update k v acc = acc @ [(k, v)]"
  by (induction acc) auto

lemma upsert_fold:
  "distinct (map fst tags) \<Longrightarrow> fst ` set acc \<inter> fst ` set tags = {} \<Longrightarrow>
   fold (\<lambda>(key, value) newTags. if P key value then AList.update key value newTags else newTags) tags acc
     = acc @ filter (\<lambda>(key, value). P key value) tags"
proof (induction tags arbitrary: acc)
  case Nil
  then show ?case by simp
next
  case (Cons kv tags)
  obtain k v where kv: "kv = (k, v)" by (cases kv)
  have knot: "k \<notin> fst ` set acc" using Cons.prems(2) kv by auto
  note upd = update_fresh[OF knot, of v]
  show ?case
  proof (cases "P k v")
    case True
    have "fst ` set (acc @ [(k, v)]) \<inter> fst ` set tags = {}"
      using Cons.prems kv by auto
    with Cons.IH[of "acc @ [(k, v)]"] Cons.prems(1) True kv upd show ?thesis by simp
  next
    case False
    have "fst ` set acc \<inter> fst ` set tags = {}" using Cons.prems(2) by auto
    with Cons.IH[of acc] Cons.prems(1) False kv show ?thesis by simp
  qed
qed

lemma getTagUpdates_eq:
  "wf_tagmap desired \<Longrightarrow>
   getTagUpdates current desired =
     (filter (\<lambda>key. map_of desired key = None) (map fst current),
      filter (\<lambda>(key, value). needsUpsert current key value) desired)"
  using upsert_fold[of desired "[]" "needsUpsert current"]
  by (simp add: getTagUpdates_def untag_fold wf_tagmap_def)

lemma needsUpsert_iff:
  "needsUpsert current k v \<longleftrightarrow> map_of current k \<noteq> Some v"
  by (auto simp: needsUpsert_def split: option.splits)

lemma getTagUpdates_example:
  "getTagUpdates [(''a'', ''1''), (''b'', ''2'')] [(''b'', ''2''), (''c'', ''3'')]
     = ([''a''], [(''c'', ''3'')])"
  by (simp add: getTagUpdates_def needsUpsert_def)

lemma map_of_fold_delete: "map_of (fold AList.delete ks m) = map_of m |` (- set ks)"
  by (induction ks arbitrary: m) (auto simp: delete_conv' restrict_map_def fun_eq_iff)

lemma map_of_fold_update:
  "distinct (map fst ups) \<Longrightarrow>
   map_of (fold (\<lambda>(k, v) m. AList.update k v m) ups m) = map_of m ++ map_of ups"
proof (induction ups arbitrary: m)
  case Nil
  then show ?case by simp
next
  case (Cons kv ups)
  obtain k v where kv: "kv = (k, v)" by (cases kv)
  have "k \<notin> dom (map_of ups)" using Cons.prems kv by (auto simp: dom_map_of_conv_image_fst)
  then have "map_of ups k = None" by auto
  then show ?case using Cons kv
    by (auto simp: update_conv' fun_eq_iff map_add_def split: option.splits)
qed

lemma map_of_filter_pairs:
  "distinct (map fst xs) \<Longrightarrow>
   map_of (filter (\<lambda>(k, v). P k v) xs) k
     = (case map_of xs k of None \<Rightarrow> None | Some v \<Rightarrow> if P k v then Some v else None)"
proof (induction xs)
  case Nil
  then show ?case by simp
next
  case (Cons kv xs)
  obtain a b where kv: "kv = (a, b)" by (cases kv)
  have notin: "a \<notin> fst ` set xs" using Cons.prems kv by auto
  then have none: "map_of xs a = None" by (simp add: map_of_eq_None_iff)
  have "a \<notin> fst ` set (filter (\<lambda>(k, v). P k v) xs)" using notin by auto
  then have fnone: "map_of (filter (\<lambda>(k, v). P k v) xs) a = None"
    by (metis map_of_eq_None_iff)
  have IH: "map_of (filter (\<lambda>(k, v). P k v) xs) k
     = (case map_of xs k of None \<Rightarrow> None | Some v \<Rightarrow> if P k v then Some v else None)"
    using Cons.IH Cons.prems by simp
  show ?case
  proof (cases "k = a")
    case True
    then show ?thesis using kv none fnone by simp
  next
    case False
    then show ?thesis using kv IH by simp
  qed
qed

lemma isOfficialTag_iff: "isOfficialTag tags k \<longleftrightarrow> k \<in> set tags"
  by (induction tags) auto

lemma asgDelete_fold_keys:
  "fst ` set (fold (\<lambda>(k, v) tagsToDelete.
                     if map_of tags k = None
                     then (if \<not> isOfficialTag official k
                           then AList.update k v tagsToDelete else tagsToDelete)
                     else tagsToDelete) cur acc)
   = fst ` set acc \<union> {k \<in> fst ` set cur. map_of tags k = None \<and> k \<notin> set official}"
  by (induction cur arbitrary: acc)
     (auto simp: dom_update isOfficialTag_iff split: prod.splits)

subsection \<open>What the differ returns\<close>

text \<open>
  Claim C1. For all tag maps \<open>current\<close> and \<open>desired\<close>, the keys that \<open>getTagUpdates\<close>
  returns for deletion are exactly the keys of \<open>current\<close> that \<open>desired\<close> lacks, each once,
  and the pairs it returns for upsert are exactly the pairs of \<open>desired\<close> whose key is
  absent from \<open>current\<close> or carries another value there, again a tag map. The function
  is total and has no error outcome: it is a HOL function into a pair.
\<close>

theorem getTagUpdates_exact:
  assumes "wf_tagmap current" and "wf_tagmap desired"
  shows "set (fst (getTagUpdates current desired)) = dom (map_of current) - dom (map_of desired)
       \<and> distinct (fst (getTagUpdates current desired))
       \<and> set (snd (getTagUpdates current desired))
           = {(k, v). map_of desired k = Some v
                \<and> (k \<notin> dom (map_of current) \<or> (\<exists>u. map_of current k = Some u \<and> u \<noteq> v))}
       \<and> wf_tagmap (snd (getTagUpdates current desired))"
proof -
  have d: "distinct (map fst current)" "distinct (map fst desired)"
    using assms by (simp_all add: wf_tagmap_def)
  have 1: "set (fst (getTagUpdates current desired)) = dom (map_of current) - dom (map_of desired)"
    by (auto simp: getTagUpdates_eq[OF assms(2)] dom_map_of_conv_image_fst map_of_eq_None_iff)
  have 2: "distinct (fst (getTagUpdates current desired))"
    using d(1) by (simp add: getTagUpdates_eq[OF assms(2)])
  have 3: "set (snd (getTagUpdates current desired))
           = {(k, v). map_of desired k = Some v
                \<and> (k \<notin> dom (map_of current) \<or> (\<exists>u. map_of current k = Some u \<and> u \<noteq> v))}"
    using d(2) by (auto simp: getTagUpdates_eq[OF assms(2)] needsUpsert_def split: option.splits)
  have 4: "wf_tagmap (snd (getTagUpdates current desired))"
    using d(2) by (simp add: getTagUpdates_eq[OF assms(2)] wf_tagmap_def distinct_map_filter)
  from 1 2 3 4 show ?thesis by blast
qed

theorem getTagUpdates_exact_witness:
  "wf_tagmap [(''a'', ''1''), (''b'', ''2'')] \<and> wf_tagmap [(''b'', ''2''), (''c'', ''3'')]
   \<and> set (fst (getTagUpdates [(''a'', ''1''), (''b'', ''2'')] [(''b'', ''2''), (''c'', ''3'')]))
       = dom (map_of [(''a'', ''1''), (''b'', ''2'')]) - dom (map_of [(''b'', ''2''), (''c'', ''3'')])
   \<and> wf_tagmap (snd (getTagUpdates [(''a'', ''1''), (''b'', ''2'')] [(''b'', ''2''), (''c'', ''3'')]))"
proof -
  have h1: "wf_tagmap [(''a'', ''1''), (''b'', ''2'')]" by (simp add: wf_tagmap_def)
  have h2: "wf_tagmap [(''b'', ''2''), (''c'', ''3'')]" by (simp add: wf_tagmap_def)
  show ?thesis using h1 h2 getTagUpdates_exact[OF h1 h2] by blast
qed

text \<open>
  Claim C2. For all tag maps \<open>current\<close> and \<open>desired\<close>, removing from \<open>current\<close> the keys
  of the diff and then writing the pairs of the diff gives a map equal to \<open>desired\<close>.
\<close>

theorem getTagUpdates_apply:
  assumes "wf_tagmap current" and "wf_tagmap desired"
  shows "map_of (applyUpdates current (fst (getTagUpdates current desired))
                              (snd (getTagUpdates current desired))) = map_of desired"
proof (rule ext)
  fix k
  let ?del = "filter (\<lambda>key. map_of desired key = None) (map fst current)"
  let ?ups = "filter (\<lambda>(key, value). needsUpsert current key value) desired"
  have dd: "distinct (map fst desired)" using assms(2) by (simp add: wf_tagmap_def)
  have du: "distinct (map fst ?ups)" using dd by (simp add: distinct_map_filter)
  have ups: "map_of ?ups k = (case map_of desired k of None \<Rightarrow> None
                | Some v \<Rightarrow> if map_of current k \<noteq> Some v then Some v else None)"
    using map_of_filter_pairs[OF dd, of "needsUpsert current" k]
    by (simp add: needsUpsert_iff split: option.splits)
  have del: "k \<in> set ?del \<longleftrightarrow> map_of current k \<noteq> None \<and> map_of desired k = None"
    by (auto simp: map_of_eq_None_iff)
  have "map_of (applyUpdates current ?del ?ups) k
        = ((map_of current |` (- set ?del)) ++ map_of ?ups) k"
    by (simp add: applyUpdates_def map_of_fold_update[OF du] map_of_fold_delete)
  also have "\<dots> = map_of desired k"
  proof (cases "map_of desired k")
    case None
    then have "map_of ?ups k = None" by (simp add: ups)
    moreover have "(map_of current |` (- set ?del)) k = None"
      using None del by (cases "map_of current k") (simp_all add: restrict_map_def)
    ultimately show ?thesis using None by (simp add: map_add_def)
  next
    case (Some v)
    then have nd: "k \<notin> set ?del" using del by simp
    show ?thesis
    proof (cases "map_of current k = Some v")
      case True
      then have "map_of ?ups k = None" using Some by (simp add: ups)
      then show ?thesis using Some True nd by (simp add: map_add_def restrict_map_def)
    next
      case False
      then have "map_of ?ups k = Some v" using Some by (simp add: ups)
      then show ?thesis using Some by (simp add: map_add_def)
    qed
  qed
  finally show "map_of (applyUpdates current (fst (getTagUpdates current desired))
                              (snd (getTagUpdates current desired))) k = map_of desired k"
    by (simp add: getTagUpdates_eq[OF assms(2)])
qed

theorem getTagUpdates_apply_witness:
  "wf_tagmap [(''a'', ''1''), (''b'', ''2'')] \<and> wf_tagmap [(''b'', ''2''), (''c'', ''3'')]
   \<and> map_of (applyUpdates [(''a'', ''1''), (''b'', ''2'')]
            (fst (getTagUpdates [(''a'', ''1''), (''b'', ''2'')] [(''b'', ''2''), (''c'', ''3'')]))
            (snd (getTagUpdates [(''a'', ''1''), (''b'', ''2'')] [(''b'', ''2''), (''c'', ''3'')])))
     = map_of [(''b'', ''2''), (''c'', ''3'')]"
proof -
  have h1: "wf_tagmap [(''a'', ''1''), (''b'', ''2'')]" by (simp add: wf_tagmap_def)
  have h2: "wf_tagmap [(''b'', ''2''), (''c'', ''3'')]" by (simp add: wf_tagmap_def)
  show ?thesis using h1 h2 getTagUpdates_apply[OF h1 h2] by blast
qed

text \<open>
  Claim C3. A key among the five tags that EKS sets on a group is never among the tags
  that \<open>getASGTagUpdates\<close> returns for deletion, whatever the current and the desired
  tags are; in particular not when the key is present in \<open>current\<close> and absent from
  \<open>desired\<close>. A protected key that \<open>desired\<close> redefines is present in \<open>desired\<close>, and
  the deletion loop skips every such key.
\<close>

theorem getASGTagUpdates_protected:
  assumes "k \<in> set (officialASGTagsByEKS cloudProviderTagKey clusterName)"
  shows "k \<notin> fst ` set (fst (getASGTagUpdates cloudProviderTagKey clusterName current desired))"
  using assms by (simp add: getASGTagUpdates_def asgDelete_fold_keys)

theorem getASGTagUpdates_protected_witness:
  "''eks:cluster-name'' \<in> set (officialASGTagsByEKS (\<lambda>n. ''kubernetes.io/cluster/'' @ n) ''c'')
   \<and> ''eks:cluster-name'' \<notin> fst ` set (fst (getASGTagUpdates
          (\<lambda>n. ''kubernetes.io/cluster/'' @ n) ''c''
          [(''eks:cluster-name'', ''x''), (''stale'', ''y'')] []))"
proof -
  have h: "''eks:cluster-name'' \<in> set (officialASGTagsByEKS (\<lambda>n. ''kubernetes.io/cluster/'' @ n) ''c'')"
    by (simp add: officialASGTagsByEKS_def eksClusterNameTag_def)
  show ?thesis using h getASGTagUpdates_protected[OF h] by blast
qed

subsection \<open>A diff that is empty\<close>

lemma getTagUpdates_same_map:
  assumes wf: "wf_tagmap d'" and same: "map_of d' = map_of d"
  shows "getTagUpdates d d' = ([], [])"
proof -
  have dd: "distinct (map fst d')" using wf by (simp add: wf_tagmap_def)
  have "map_of d' k \<noteq> None" if "k \<in> fst ` set d" for k
    using that same by (simp add: map_of_eq_None_iff)
  then have a: "filter (\<lambda>key. map_of d' key = None) (map fst d) = []"
    by (auto simp: filter_empty_conv)
  have "\<not> needsUpsert d k v" if "(k, v) \<in> set d'" for k v
  proof -
    from that dd have "map_of d' k = Some v" by simp
    then show ?thesis using same by (simp add: needsUpsert_iff)
  qed
  then have b: "filter (\<lambda>(key, value). needsUpsert d key value) d' = []"
    by (auto simp: filter_empty_conv)
  show ?thesis by (simp add: getTagUpdates_eq[OF wf] a b)
qed

text \<open>
  Claim C8. The diff of a tag map against itself is empty on both sides, also when the
  two loops of the differ visit the map in different orders (\<open>d'\<close> lists the entries of
  \<open>d\<close> in any order), so that \<^verbatim>\<open>updateTags\<close> and \<^verbatim>\<open>updateECSTags\<close>, run again with the
  current tags equal to the desired tags, return \<^verbatim>\<open>nil\<close> and make no call.
\<close>

theorem diff_self_empty:
  assumes "wf_tagmap d" and "wf_tagmap d'" and "map_of d' = map_of d"
  shows "getTagUpdates d d = ([], [])
       \<and> getTagUpdates d d' = ([], [])
       \<and> updateTags client arn d d' tr = (None, tr)
       \<and> updateECSTags lv ec2c resources d d' tr = (None, tr)"
  using getTagUpdates_same_map[OF assms(2,3)] getTagUpdates_same_map[OF assms(1) refl]
  by (simp add: updateTags_def updateECSTags_def)

theorem diff_self_empty_witness:
  "wf_tagmap [(''b'', ''2''), (''c'', ''3'')] \<and> wf_tagmap [(''c'', ''3''), (''b'', ''2'')]
   \<and> getTagUpdates [(''b'', ''2''), (''c'', ''3'')] [(''b'', ''2''), (''c'', ''3'')] = ([], [])
   \<and> getTagUpdates [(''b'', ''2''), (''c'', ''3'')] [(''c'', ''3''), (''b'', ''2'')] = ([], [])
   \<and> updateTags denyingEKS None [(''b'', ''2''), (''c'', ''3'')] [(''c'', ''3''), (''b'', ''2'')] []
       = (None, [])
   \<and> updateECSTags PerLoop denyingEC2 [] [(''b'', ''2''), (''c'', ''3'')] [(''c'', ''3''), (''b'', ''2'')] []
       = (None, [])"
proof -
  have h: "wf_tagmap [(''b'', ''2''), (''c'', ''3'')]" by (simp add: wf_tagmap_def)
  have h': "wf_tagmap [(''c'', ''3''), (''b'', ''2'')]" by (simp add: wf_tagmap_def)
  have m: "map_of [(''c'', ''3''), (''b'', ''2'')] = map_of [(''b'', ''2''), (''c'', ''3'')]"
    by (auto simp: fun_eq_iff)
  show ?thesis using h h' diff_self_empty[OF h h' m] by blast
qed

subsection \<open>Failures\<close>

lemma updateTags_cases:
  assumes "getTagUpdates existing desired = (untagKeys, newTags)"
  shows "updateTags client arn existing desired tr =
     (if newTags = [] then
        (if untagKeys = [] then (None, tr)
         else (UntagResource client tr arn untagKeys, tr @ [EKS_UntagResource arn untagKeys]))
      else (case TagResource client tr arn newTags of
              Some err \<Rightarrow> (Some err, tr @ [EKS_TagResource arn newTags])
            | None \<Rightarrow>
               (if untagKeys = [] then (None, tr @ [EKS_TagResource arn newTags])
                else (UntagResource client (tr @ [EKS_TagResource arn newTags]) arn untagKeys,
                      tr @ [EKS_TagResource arn newTags, EKS_UntagResource arn untagKeys]))))"
  using assms by (simp add: updateTags_def split: option.splits)






subsection \<open>Tags added to the Auto Scaling Group\<close>

lemma createOrUpdateTagsLoop_propagate:
  "list_all (\<lambda>t. PropagateAtLaunch t = Some True) tags \<Longrightarrow>
   list_all (\<lambda>t. PropagateAtLaunch t = Some True) (snd (createOrUpdateTagsLoop asg kvs h tags))"
  by (induction asg kvs h tags rule: createOrUpdateTagsLoop.induct)
     (simp_all add: alloc_def Let_def split: prod.splits)

lemma createOrUpdateTagsInput_propagate:
  "list_all (\<lambda>t. asgt_PropagateAtLaunch t = Some True) (createOrUpdateTagsInput asg tagsToAdd)"
proof (cases "createOrUpdateTagsLoop asg tagsToAdd emptyStore []")
  case (Pair h tags)
  then have "list_all (\<lambda>t. PropagateAtLaunch t = Some True) tags"
    using createOrUpdateTagsLoop_propagate[of "[]" asg tagsToAdd emptyStore] by simp
  then show ?thesis
    by (simp add: createOrUpdateTagsInput_def Pair readASGTag_def list_all_iff)
qed

text \<open>
  Claim C9. In every \<^verbatim>\<open>CreateOrUpdateTags\<close> call that \<^verbatim>\<open>reconcileASGTags\<close> makes after
  \<^verbatim>\<open>describeASGs\<close> has returned, every tag has \<^verbatim>\<open>PropagateAtLaunch\<close> set to true, for every
  service, nodegroup and history: no input changes the value.
\<close>

theorem reconcileASGTags_propagate:
  "list_all propagatesAtLaunch
     (callsSince (tr @ snd (describeASGs s tr ng)) (snd (reconcileASGTags s ng tr)))"
  by (simp add: reconcileASGTags_def callsSince_def propagatesAtLaunch_def
        createOrUpdateTagsInput_propagate Let_def
      split: option.splits prod.splits sum.splits)

theorem reconcileASGTags_propagate_witness:
  "list_all propagatesAtLaunch
     (callsSince ([] @ snd (describeASGs (exService (exEC2 [] [])) [] exNodegroup))
        (snd (reconcileASGTags (exService (exEC2 [] [])) exNodegroup [])))
   \<and> snd (reconcileASGTags (exService (exEC2 [] [])) exNodegroup [])
     = [ASG_DescribeAutoScalingGroups [Some ''asg-1''],
        ASG_CreateOrUpdateTags
          [\<lparr>asgt_Key = Some ''team'', asgt_PropagateAtLaunch = Some True,
            asgt_ResourceId = Some ''asg-1'', asgt_ResourceType = Some ''auto-scaling-group'',
            asgt_Value = Some ''a''\<rparr>]]"
proof -
  have "snd (reconcileASGTags (exService (exEC2 [] [])) exNodegroup [])
     = [ASG_DescribeAutoScalingGroups [Some ''asg-1''],
        ASG_CreateOrUpdateTags
          [\<lparr>asgt_Key = Some ''team'', asgt_PropagateAtLaunch = Some True,
            asgt_ResourceId = Some ''asg-1'', asgt_ResourceType = Some ''auto-scaling-group'',
            asgt_Value = Some ''a''\<rparr>]]"
    by (simp add: reconcileASGTags_def exService_def exNodegroup_def exGroup_def exASG_def
          tagDescriptionsToMap_def getASGTagUpdates_def needsUpsert_def
          officialASGTagsByEKS_def eksClusterNameTag_def eksNodeGroupNameTag_def
          eksClusterAutoscalerEnabledTag_def exCloudProviderTagKey_def
          createOrUpdateTagsInput_def alloc_def emptyStore_def readASGTag_def deref_def)
  then show ?thesis
    using reconcileASGTags_propagate[of "[]" "exService (exEC2 [] [])" exNodegroup]
    by blast
qed

section \<open>Requests and the addresses of loop variables\<close>

lemma createTagsLoop_PerLoop:
  "createTagsLoop PerLoop ak av kvs h tags =
     (fold (\<lambda>(k, v) h. assign av v (assign ak k h)) kvs h,
      tags @ replicate (length kvs) (Some \<lparr>Key = Some ak, Value = Some av\<rparr>))"
proof (induction kvs arbitrary: h tags)
  case Nil
  then show ?case by simp
next
  case (Cons kv kvs)
  obtain k v where kv: "kv = (k, v)" by (cases kv)
  show ?case by (simp add: kv Cons.IH replicate_app_Cons_same)
qed

lemma assign_fold_last:
  "kvs \<noteq> [] \<Longrightarrow> ak \<noteq> av \<Longrightarrow>
   cells (fold (\<lambda>(k, v) h. assign av v (assign ak k h)) kvs h) ak = Some (fst (last kvs))
   \<and> cells (fold (\<lambda>(k, v) h. assign av v (assign ak k h)) kvs h) av = Some (snd (last kvs))"
proof (induction kvs rule: rev_induct)
  case Nil
  then show ?case by simp
next
  case (snoc kv kvs)
  obtain k v where kv: "kv = (k, v)" by (cases kv)
  show ?case using snoc.prems(2) by (simp add: kv assign_def)
qed

lemma createTagsInput_init:
  "createTagsInput lv newTags =
     (case createTagsLoop lv 0 (Suc 0) newTags initStore [] of
        (h, tags) \<Rightarrow> map (map_option (readTag h)) tags)"
  by (simp add: createTagsInput_def alloc_def emptyStore_def initStore_def)

lemma createTagsInput_PerLoop:
  assumes "newTags \<noteq> []"
  shows "createTagsInput PerLoop newTags =
     replicate (length newTags)
       (Some \<lparr>tag_Key = Some (fst (last newTags)), tag_Value = Some (snd (last newTags))\<rparr>)"
proof -
  have c: "(0::nat) \<noteq> Suc 0" by simp
  note l = assign_fold_last[OF assms c, of initStore]
  show ?thesis
    using l by (simp add: createTagsInput_init createTagsLoop_PerLoop readTag_def deref_def)
qed

lemma ptrsBelow_mono: "ptrsBelow n t \<Longrightarrow> n \<le> m \<Longrightarrow> ptrsBelow m t"
  by (cases t) (auto simp: ptrsBelow_def split: option.splits)

lemma createTagsLoop_PerIteration:
  "list_all (ptrsBelow (nextFree h)) tags \<Longrightarrow>
   createTagsLoop PerIteration ak av kvs h tags = (h', tags') \<Longrightarrow>
   map (map_option (readTag h')) tags'
     = map (map_option (readTag h)) tags
       @ map (\<lambda>(k, v). Some \<lparr>tag_Key = Some k, tag_Value = Some v\<rparr>) kvs"
proof (induction kvs arbitrary: h tags)
  case Nil
  then show ?case by simp
next
  case (Cons kv kvs)
  obtain k v where kv: "kv = (k, v)" by (cases kv)
  let ?n = "nextFree h"
  let ?h2 = "\<lparr>cells = (cells h)(?n \<mapsto> k, Suc ?n \<mapsto> v), nextFree = Suc (Suc ?n)\<rparr>"
  let ?new = "Some \<lparr>Key = Some ?n, Value = Some (Suc ?n)\<rparr>"
  have run: "createTagsLoop PerIteration ak av kvs ?h2 (tags @ [?new]) = (h', tags')"
    using Cons.prems(2) by (simp add: kv alloc_def)
  have "list_all (ptrsBelow (Suc (Suc ?n))) tags"
    using Cons.prems(1) ptrsBelow_mono[of ?n _ "Suc (Suc ?n)"] by (simp add: list_all_iff)
  moreover have "ptrsBelow (Suc (Suc ?n)) ?new" by (simp add: ptrsBelow_def)
  ultimately have below: "list_all (ptrsBelow (nextFree ?h2)) (tags @ [?new])" by simp
  have old: "map (map_option (readTag ?h2)) tags = map (map_option (readTag h)) tags"
  proof (rule map_cong[OF refl])
    fix t assume "t \<in> set tags"
    then have "ptrsBelow ?n t" using Cons.prems(1) by (simp add: list_all_iff)
    then show "map_option (readTag ?h2) t = map_option (readTag h) t"
      by (cases t) (auto simp: ptrsBelow_def readTag_def deref_def split: option.splits)
  qed
  have new: "map_option (readTag ?h2) ?new = Some \<lparr>tag_Key = Some k, tag_Value = Some v\<rparr>"
    by (simp add: readTag_def deref_def)
  show ?case
    using Cons.IH[OF below run] old new by (simp add: kv)
qed

lemma createTagsInput_PerIteration:
  "createTagsInput PerIteration newTags
     = map (\<lambda>(k, v). Some \<lparr>tag_Key = Some k, tag_Value = Some v\<rparr>) newTags"
proof -
  obtain h' tags' where r: "createTagsLoop PerIteration 0 (Suc 0) newTags initStore [] = (h', tags')"
    by (cases "createTagsLoop PerIteration 0 (Suc 0) newTags initStore []")
  have "map (map_option (readTag h')) tags'
     = map (\<lambda>(k, v). Some \<lparr>tag_Key = Some k, tag_Value = Some v\<rparr>) newTags"
    using createTagsLoop_PerIteration[OF _ r] by simp
  then show ?thesis
    by (simp add: createTagsInput_init r)
qed

lemma createOrUpdateTagsLoop_read:
  "list_all (asgPtrsBelow (nextFree h)) tags \<Longrightarrow>
   createOrUpdateTagsLoop asg kvs h tags = (h', tags') \<Longrightarrow>
   map (readASGTag h') tags'
     = map (readASGTag h) tags
       @ map (\<lambda>(k, v). \<lparr>asgt_Key = Some k, asgt_PropagateAtLaunch = Some True,
                        asgt_ResourceId = asg_AutoScalingGroupName asg,
                        asgt_ResourceType = Some ''auto-scaling-group'',
                        asgt_Value = Some v\<rparr>) kvs"
proof (induction kvs arbitrary: h tags)
  case Nil
  then show ?case by simp
next
  case (Cons kv kvs)
  obtain k v where kv: "kv = (k, v)" by (cases kv)
  let ?n = "nextFree h"
  let ?h2 = "\<lparr>cells = (cells h)(?n \<mapsto> k, Suc ?n \<mapsto> v), nextFree = Suc (Suc ?n)\<rparr>"
  let ?new = "\<lparr>Key_ptr = Some ?n, PropagateAtLaunch = Some True,
               ResourceId = asg_AutoScalingGroupName asg,
               ResourceType = Some ''auto-scaling-group'', Value_ptr = Some (Suc ?n)\<rparr>"
  have run: "createOrUpdateTagsLoop asg kvs ?h2 (tags @ [?new]) = (h', tags')"
    using Cons.prems(2) by (simp add: kv alloc_def)
  have mono: "asgPtrsBelow (Suc (Suc ?n)) t" if "asgPtrsBelow ?n t" for t
    using that by (auto simp: asgPtrsBelow_def split: option.splits)
  have "list_all (asgPtrsBelow (Suc (Suc ?n))) tags"
    using Cons.prems(1) mono by (simp add: list_all_iff)
  moreover have "asgPtrsBelow (Suc (Suc ?n)) ?new" by (simp add: asgPtrsBelow_def)
  ultimately have below: "list_all (asgPtrsBelow (nextFree ?h2)) (tags @ [?new])" by simp
  have old: "map (readASGTag ?h2) tags = map (readASGTag h) tags"
  proof (rule map_cong[OF refl])
    fix t assume "t \<in> set tags"
    then have "asgPtrsBelow ?n t" using Cons.prems(1) by (simp add: list_all_iff)
    then show "readASGTag ?h2 t = readASGTag h t"
      by (auto simp: asgPtrsBelow_def readASGTag_def deref_def split: option.splits)
  qed
  have new: "readASGTag ?h2 ?new = \<lparr>asgt_Key = Some k, asgt_PropagateAtLaunch = Some True,
                        asgt_ResourceId = asg_AutoScalingGroupName asg,
                        asgt_ResourceType = Some ''auto-scaling-group'',
                        asgt_Value = Some v\<rparr>"
    by (simp add: readASGTag_def deref_def)
  show ?case
    using Cons.IH[OF below run] old new by (simp add: kv)
qed

lemma createOrUpdateTagsInput_eq:
  "createOrUpdateTagsInput asg tagsToAdd
     = map (\<lambda>(k, v). \<lparr>asgt_Key = Some k, asgt_PropagateAtLaunch = Some True,
                      asgt_ResourceId = asg_AutoScalingGroupName asg,
                      asgt_ResourceType = Some ''auto-scaling-group'',
                      asgt_Value = Some v\<rparr>) tagsToAdd"
proof -
  obtain h' tags' where r: "createOrUpdateTagsLoop asg tagsToAdd emptyStore [] = (h', tags')"
    by (cases "createOrUpdateTagsLoop asg tagsToAdd emptyStore []")
  show ?thesis
    using createOrUpdateTagsLoop_read[OF _ r] by (simp add: createOrUpdateTagsInput_def r)
qed

text \<open>
  Claim C6 holds for the request of \<^verbatim>\<open>reconcileASGTags\<close> (\<open>createOrUpdateTagsInput_eq\<close>) and,
  with a loop variable in each iteration, for the request of \<^verbatim>\<open>updateECSTags\<close>
  (\<open>createTagsInput_PerIteration\<close>). With one variable for the loop, the entries of the
  \<^verbatim>\<open>CreateTags\<close> request of \<^verbatim>\<open>updateECSTags\<close> all point to the same two variables
  (\<open>createTagsInput_PerLoop\<close>): for the desired tags a:1 and b:2 on a resource without tags,
  the call carries the pair b:2 twice and the pair a:1 not at all.
\<close>

theorem updateECSTags_request_aliased:
  "updateECSTags PerLoop (exEC2 [] []) [Some ''i-1''] [] [(''a'', ''1''), (''b'', ''2'')] []
     = (None,
        [EC2_CreateTags [Some ''i-1'']
           [Some \<lparr>tag_Key = Some ''b'', tag_Value = Some ''2''\<rparr>,
            Some \<lparr>tag_Key = Some ''b'', tag_Value = Some ''2''\<rparr>]])"
proof -
  have d: "getTagUpdates [] [(''a'', ''1''), (''b'', ''2'')] = ([], [(''a'', ''1''), (''b'', ''2'')])"
    by (simp add: getTagUpdates_def needsUpsert_def)
  have c: "createTagsInput PerLoop [(''a'', ''1''), (''b'', ''2'')]
            = [Some \<lparr>tag_Key = Some ''b'', tag_Value = Some ''2''\<rparr>,
               Some \<lparr>tag_Key = Some ''b'', tag_Value = Some ''2''\<rparr>]"
    by (simp add: createTagsInput_PerLoop numeral_2_eq_2)
  show ?thesis
    by (simp add: updateECSTags_def d c exEC2_def)
qed

section \<open>Instances and volumes\<close>

subsection \<open>The calls of the two reconcilers\<close>

lemma madeOnly_refl: "madeOnly Q tr tr"
  by (simp add: madeOnly_def)

lemma madeOnly_iff: "madeOnly Q tr tr' \<longleftrightarrow> (\<exists>new. tr' = tr @ new \<and> list_all Q new)"
proof
  assume "madeOnly Q tr tr'"
  then have "tr' = tr @ drop (length tr) tr' \<and> list_all Q (drop (length tr) tr')"
    by (metis madeOnly_def append_take_drop_id)
  then show "\<exists>new. tr' = tr @ new \<and> list_all Q new" by blast
next
  assume "\<exists>new. tr' = tr @ new \<and> list_all Q new"
  then show "madeOnly Q tr tr'" by (auto simp: madeOnly_def)
qed

lemma madeOnly_trans: "madeOnly Q a b \<Longrightarrow> madeOnly Q b c \<Longrightarrow> madeOnly Q a c"
  by (auto simp: madeOnly_iff)

lemma madeOnly_snoc: "madeOnly Q a b \<Longrightarrow> Q c \<Longrightarrow> madeOnly Q a (b @ [c])"
  by (auto simp: madeOnly_iff)

lemma copyTags_keys:
  "fst ` set t0 \<subseteq> fst ` set d0 \<Longrightarrow>
   fst ` set (fst (copyTags ts (t0, d0))) \<subseteq> fst ` set (snd (copyTags ts (t0, d0)))"
proof (induction ts arbitrary: t0 d0)
  case Nil
  then show ?case by (simp add: copyTags_def)
next
  case (Cons tag ts)
  have step: "copyTags (tag # ts) (t0, d0) =
      copyTags ts (case tag of None \<Rightarrow> (t0, d0)
                   | Some t \<Rightarrow> (case tag_Key t of None \<Rightarrow> (t0, d0)
                      | Some k \<Rightarrow> (case tag_Value t of None \<Rightarrow> (t0, d0)
                         | Some v \<Rightarrow> (AList.update k v t0, AList.update k v d0))))"
    by (simp add: copyTags_def)
  let ?p = "case tag of None \<Rightarrow> (t0, d0)
                   | Some t \<Rightarrow> (case tag_Key t of None \<Rightarrow> (t0, d0)
                      | Some k \<Rightarrow> (case tag_Value t of None \<Rightarrow> (t0, d0)
                         | Some v \<Rightarrow> (AList.update k v t0, AList.update k v d0)))"
  have sub: "fst ` set (fst ?p) \<subseteq> fst ` set (snd ?p)"
    using Cons.prems by (auto split: option.splits simp: dom_update)
  have "fst ` set (fst (copyTags ts (fst ?p, snd ?p))) \<subseteq> fst ` set (snd (copyTags ts (fst ?p, snd ?p)))"
    using sub by (rule Cons.IH)
  then show ?case unfolding step by simp
qed

lemma overlayTags_keys: "fst ` set d \<subseteq> fst ` set (overlayTags ngtags d)"
proof (induction ngtags arbitrary: d)
  case Nil
  then show ?case by (simp add: overlayTags_def)
next
  case (Cons kv ngtags)
  obtain k v where kv: "kv = (k, v)" by (cases kv)
  have "fst ` set d \<subseteq> fst ` set (AList.update k v d)" by (auto simp: dom_update)
  also have "\<dots> \<subseteq> fst ` set (overlayTags ngtags (AList.update k v d))" by (rule Cons.IH)
  finally show ?case by (simp add: overlayTags_def kv)
qed

lemma no_untagKeys:
  "fst ` set tags \<subseteq> fst ` set desired \<Longrightarrow> fst (getTagUpdates tags desired) = []"
proof -
  assume sub: "fst ` set tags \<subseteq> fst ` set desired"
  have "fst (getTagUpdates tags desired) = filter (\<lambda>key. map_of desired key = None) (map fst tags)"
    unfolding getTagUpdates_def Let_def fst_conv untag_fold by simp
  also have "\<dots> = []"
    using sub by (auto simp: filter_empty_conv map_of_eq_None_iff)
  finally show ?thesis .
qed

lemma instanceUntagKeys_empty: "instanceUntagKeys ngtags inst = []"
proof -
  obtain tags desired0 where c: "copyTags (inst_Tags inst) ([], []) = (tags, desired0)"
    by (cases "copyTags (inst_Tags inst) ([], [])")
  have "fst ` set tags \<subseteq> fst ` set desired0"
    using copyTags_keys[of "[]" "[]" "inst_Tags inst"] c by simp
  then have "fst ` set tags \<subseteq> fst ` set (overlayTags ngtags desired0)"
    using overlayTags_keys[of desired0 ngtags] by blast
  then show ?thesis by (simp add: instanceUntagKeys_def c no_untagKeys)
qed

lemma volumeUntagKeys_empty: "volumeUntagKeys clusterName name ngtags vol = []"
proof -
  let ?d0 = "AList.update eksNodeGroupNameTag name (AList.update eksClusterNameTag clusterName [])"
  obtain tags desired1 where c: "copyTags (vol_Tags vol) ([], ?d0) = (tags, desired1)"
    by (cases "copyTags (vol_Tags vol) ([], ?d0)")
  have "fst ` set tags \<subseteq> fst ` set desired1"
    using copyTags_keys[of "[]" ?d0 "vol_Tags vol"] c by simp
  then have "fst ` set tags \<subseteq> fst ` set (overlayTags ngtags desired1)"
    using overlayTags_keys[of desired1 ngtags] by blast
  then show ?thesis using c by (simp add: volumeUntagKeys_def no_untagKeys)
qed

lemma updateECSTags_no_untag:
  assumes "fst (getTagUpdates existing desired) = []"
  shows "updateECSTags lv client rs existing desired tr =
     (let newTags = snd (getTagUpdates existing desired) in
      if newTags = [] then (None, tr)
      else (CreateTags client tr rs (createTagsInput lv newTags),
            tr @ [EC2_CreateTags rs (createTagsInput lv newTags)]))"
proof -
  obtain untagKeys newTags where d: "getTagUpdates existing desired = (untagKeys, newTags)"
    by (cases "getTagUpdates existing desired")
  with assms have u: "untagKeys = []" by simp
  show ?thesis
    by (simp add: updateECSTags_def d u Let_def split: option.splits)
qed

lemma updateECSTags_madeOnly:
  assumes "fst (getTagUpdates existing desired) = []"
  shows "madeOnly isCreateTagsOrDescribeVolumes tr (snd (updateECSTags lv client rs existing desired tr))"
  by (simp add: updateECSTags_no_untag[OF assms] Let_def madeOnly_refl madeOnly_snoc
        isCreateTagsOrDescribeVolumes_def)

lemma volumesLoop_madeOnly:
  "madeOnly isCreateTagsOrDescribeVolumes tr (snd (volumesLoop lv s ng ngtags vols tr))"
proof (induction vols arbitrary: tr)
  case Nil
  then show ?case by (simp add: madeOnly_refl)
next
  case (Cons vol vols)
  show ?case
  proof (cases "NodegroupName ng")
    case None
    then show ?thesis by (simp add: madeOnly_refl)
  next
    case (Some name)
    let ?d0 = "AList.update eksNodeGroupNameTag name
                 (AList.update eksClusterNameTag (ClusterName s) [])"
    obtain tags desired1 where c: "copyTags (vol_Tags vol) ([], ?d0) = (tags, desired1)"
      by (cases "copyTags (vol_Tags vol) ([], ?d0)")
    have u: "fst (getTagUpdates tags (overlayTags ngtags desired1)) = []"
      using volumeUntagKeys_empty[of "ClusterName s" name ngtags vol]
      unfolding volumeUntagKeys_def Let_def c by simp
    obtain e tr1 where r: "updateECSTags lv (EC2Client s) [vol_VolumeId vol] tags
                             (overlayTags ngtags desired1) tr = (e, tr1)"
      by (cases "updateECSTags lv (EC2Client s) [vol_VolumeId vol] tags
                             (overlayTags ngtags desired1) tr")
    have m1: "madeOnly isCreateTagsOrDescribeVolumes tr tr1"
      using updateECSTags_madeOnly[OF u, of tr lv "EC2Client s" "[vol_VolumeId vol]"] r by simp
    show ?thesis
    proof (cases e)
      case None
      have "madeOnly isCreateTagsOrDescribeVolumes tr1 (snd (volumesLoop lv s ng ngtags vols tr1))"
        by (rule Cons.IH)
      with m1 have "madeOnly isCreateTagsOrDescribeVolumes tr (snd (volumesLoop lv s ng ngtags vols tr1))"
        by (rule madeOnly_trans)
      then show ?thesis using Some c r None by simp
    next
      case (Some err)
      then show ?thesis using \<open>NodegroupName ng = Some name\<close> c r m1 by simp
    qed
  qed
qed

lemma volumePagesLoop_madeOnly:
  "madeOnly isCreateTagsOrDescribeVolumes tr (snd (volumePagesLoop fuel lv s ng ngtags output tr))"
proof (induction fuel arbitrary: tr)
  case 0
  then show ?case by (simp add: madeOnly_refl)
next
  case (Suc fuel)
  obtain fl tr1 where r: "volumesLoop lv s ng ngtags (dvo_Volumes output) tr = (fl, tr1)"
    by (cases "volumesLoop lv s ng ngtags (dvo_Volumes output) tr")
  have m1: "madeOnly isCreateTagsOrDescribeVolumes tr tr1"
    using volumesLoop_madeOnly[of tr lv s ng ngtags "dvo_Volumes output"] r by simp
  show ?case
  proof (cases fl)
    case Continue
    show ?thesis
    proof (cases "dvo_NextToken output = None")
      case True
      then show ?thesis using r Continue m1 by simp
    next
      case False
      then obtain tok where tok: "dvo_NextToken output = Some tok" by auto
      have "madeOnly isCreateTagsOrDescribeVolumes tr1
              (snd (volumePagesLoop fuel lv s ng ngtags output tr1))"
        by (rule Suc.IH)
      with m1 have "madeOnly isCreateTagsOrDescribeVolumes tr
              (snd (volumePagesLoop fuel lv s ng ngtags output tr1))"
        by (rule madeOnly_trans)
      then show ?thesis using r Continue tok by simp
    qed
  next
    case (Exit out)
    then show ?thesis using r m1 by simp
  qed
qed

lemma reconcileEBSVolumeTags_madeOnly:
  "madeOnly isCreateTagsOrDescribeVolumes tr (snd (reconcileEBSVolumeTags fuel lv s volumeIds ng tr))"
proof (cases "DescribeVolumes (EC2Client s) tr volumeIds")
  case (Inl err)
  then show ?thesis
    by (simp add: reconcileEBSVolumeTags_def madeOnly_snoc madeOnly_refl
          isCreateTagsOrDescribeVolumes_def)
next
  case (Inr out)
  have "madeOnly isCreateTagsOrDescribeVolumes tr (tr @ [EC2_DescribeVolumes volumeIds])"
    by (simp add: madeOnly_snoc madeOnly_refl isCreateTagsOrDescribeVolumes_def)
  then have "madeOnly isCreateTagsOrDescribeVolumes tr
     (snd (volumePagesLoop fuel lv s ng (ngTags s (ClusterName s) (AdditionalTags s)) out
             (tr @ [EC2_DescribeVolumes volumeIds])))"
    using volumePagesLoop_madeOnly madeOnly_trans by blast
  then show ?thesis using Inr by (simp add: reconcileEBSVolumeTags_def)
qed

lemma instancesLoop_madeOnly:
  "madeOnly isCreateTagsOrDescribeVolumes tr (snd (instancesLoop fuel lv s ng ngtags insts tr))"
proof (induction insts arbitrary: tr)
  case Nil
  then show ?case by (simp add: madeOnly_refl)
next
  case (Cons inst insts)
  obtain tags desired0 where c: "copyTags (inst_Tags inst) ([], []) = (tags, desired0)"
    by (cases "copyTags (inst_Tags inst) ([], [])")
  have u: "fst (getTagUpdates tags (overlayTags ngtags desired0)) = []"
    using instanceUntagKeys_empty[of ngtags inst]
    unfolding instanceUntagKeys_def Let_def c by simp
  obtain e tr1 where r: "updateECSTags lv (EC2Client s) [inst_InstanceId inst] tags
                           (overlayTags ngtags desired0) tr = (e, tr1)"
    by (cases "updateECSTags lv (EC2Client s) [inst_InstanceId inst] tags
                           (overlayTags ngtags desired0) tr")
  have m1: "madeOnly isCreateTagsOrDescribeVolumes tr tr1"
    using updateECSTags_madeOnly[OF u, of tr lv "EC2Client s" "[inst_InstanceId inst]"] r by simp
  show ?case
  proof (cases e)
    case (Some err)
    then show ?thesis using c r m1 by simp
  next
    case None
    obtain res tr2 where v: "reconcileEBSVolumeTags fuel lv s
                               (volumeIdsOf (inst_BlockDeviceMappings inst)) ng tr1 = (res, tr2)"
      by (cases "reconcileEBSVolumeTags fuel lv s
                               (volumeIdsOf (inst_BlockDeviceMappings inst)) ng tr1")
    have "madeOnly isCreateTagsOrDescribeVolumes tr1 tr2"
      using reconcileEBSVolumeTags_madeOnly[of tr1 fuel lv s
              "volumeIdsOf (inst_BlockDeviceMappings inst)" ng] v by simp
    with m1 have m2: "madeOnly isCreateTagsOrDescribeVolumes tr tr2" by (rule madeOnly_trans)
    have "madeOnly isCreateTagsOrDescribeVolumes tr2 (snd (instancesLoop fuel lv s ng ngtags insts tr2))"
      by (rule Cons.IH)
    with m2 have m3: "madeOnly isCreateTagsOrDescribeVolumes tr
                        (snd (instancesLoop fuel lv s ng ngtags insts tr2))"
      by (rule madeOnly_trans)
    show ?thesis using c r None v m2 m3
      by (simp split: option.splits outcome.splits)
  qed
qed

lemma reservationsLoop_madeOnly:
  "madeOnly isCreateTagsOrDescribeVolumes tr (snd (reservationsLoop fuel lv s ng ngtags rs tr))"
proof (induction rs arbitrary: tr)
  case Nil
  then show ?case by (simp add: madeOnly_refl)
next
  case (Cons r rs)
  obtain fl tr1 where i: "instancesLoop fuel lv s ng ngtags (res_Instances r) tr = (fl, tr1)"
    by (cases "instancesLoop fuel lv s ng ngtags (res_Instances r) tr")
  have m1: "madeOnly isCreateTagsOrDescribeVolumes tr tr1"
    using instancesLoop_madeOnly[of tr fuel lv s ng ngtags "res_Instances r"] i by simp
  have "madeOnly isCreateTagsOrDescribeVolumes tr1 (snd (reservationsLoop fuel lv s ng ngtags rs tr1))"
    by (rule Cons.IH)
  with m1 have m2: "madeOnly isCreateTagsOrDescribeVolumes tr
                      (snd (reservationsLoop fuel lv s ng ngtags rs tr1))"
    by (rule madeOnly_trans)
  show ?case using i m1 m2 by (simp split: option.splits flow.splits)
qed

lemma instancePagesLoop_madeOnly:
  "madeOnly isCreateTagsOrDescribeVolumes tr
     (snd (instancePagesLoop n fuel lv s ng ngtags output tr))"
proof (induction n arbitrary: tr)
  case 0
  then show ?case by (simp add: madeOnly_refl)
next
  case (Suc n)
  obtain fl tr1 where r: "reservationsLoop fuel lv s ng ngtags (dio_Reservations output) tr = (fl, tr1)"
    by (cases "reservationsLoop fuel lv s ng ngtags (dio_Reservations output) tr")
  have m1: "madeOnly isCreateTagsOrDescribeVolumes tr tr1"
    using reservationsLoop_madeOnly[of tr fuel lv s ng ngtags "dio_Reservations output"] r by simp
  have "madeOnly isCreateTagsOrDescribeVolumes tr1
          (snd (instancePagesLoop n fuel lv s ng ngtags output tr1))"
    by (rule Suc.IH)
  with m1 have m2: "madeOnly isCreateTagsOrDescribeVolumes tr
          (snd (instancePagesLoop n fuel lv s ng ngtags output tr1))"
    by (rule madeOnly_trans)
  show ?case using r m1 m2 by (simp split: option.splits flow.splits)
qed

lemma madeOnly_no_delete:
  assumes "madeOnly isCreateTagsOrDescribeVolumes tr tr'"
  shows "filter isDeleteTags (callsSince tr tr') = []"
proof -
  have "\<not> isDeleteTags c" if "isCreateTagsOrDescribeVolumes c" for c
    using that by (cases c) (simp_all add: isCreateTagsOrDescribeVolumes_def isDeleteTags_def)
  then show ?thesis
    using assms by (auto simp: madeOnly_def callsSince_def filter_empty_conv list_all_iff)
qed

lemma reconcileInstanceTags_no_delete:
  "filter isDeleteTags (callsSince tr (snd (reconcileInstanceTags fuel lv s ng tr))) = []"
proof (cases "Resources ng")
  case None
  then show ?thesis by (simp add: reconcileInstanceTags_def callsSince_def)
next
  case (Some resources)
  let ?names = "map eksasg_Name (AutoScalingGroups resources)"
  let ?tr1 = "tr @ [ASG_DescribeAutoScalingGroups ?names]"
  show ?thesis
  proof (cases "DescribeAutoScalingGroups (AutoscalingClient s) tr ?names")
    case (Inl err)
    then show ?thesis using Some
      by (simp add: reconcileInstanceTags_def callsSince_def isDeleteTags_def)
  next
    case (Inr groups)
    let ?ids = "concat (map (\<lambda>group. map asgi_InstanceId (asg_Instances group)) groups)"
    let ?tr2 = "?tr1 @ [EC2_DescribeInstances ?ids]"
    show ?thesis
    proof (cases "DescribeInstances (EC2Client s) ?tr1 ?ids")
      case (Inl err)
      then show ?thesis using Some Inr
        by (simp add: reconcileInstanceTags_def callsSince_def isDeleteTags_def)
    next
      case (Inr out)
      let ?res = "instancePagesLoop fuel fuel lv s ng (ngTags s (ClusterName s) (AdditionalTags s))
                    out ?tr2"
      have "madeOnly isCreateTagsOrDescribeVolumes ?tr2 (snd ?res)"
        by (rule instancePagesLoop_madeOnly)
      then obtain new where new: "snd ?res = ?tr2 @ new" "list_all isCreateTagsOrDescribeVolumes new"
        by (auto simp: madeOnly_iff)
      have "filter isDeleteTags new = []"
        using madeOnly_no_delete[of "[]" new] new(2) by (simp add: madeOnly_def callsSince_def)
      moreover have "snd (reconcileInstanceTags fuel lv s ng tr) = snd ?res"
        using Some \<open>DescribeAutoScalingGroups (AutoscalingClient s) tr ?names = Inr groups\<close> Inr
        by (simp add: reconcileInstanceTags_def Let_def)
      ultimately show ?thesis
        using new(1) by (simp add: callsSince_def isDeleteTags_def)
    qed
  qed
qed

text \<open>
  Claim C10. For every instance and every volume the desired tags handed to the differ
  contain every key of the current tags, so that the differ returns no key for deletion;
  and whatever the service, the nodegroup, the fuel and the history, neither
  \<^verbatim>\<open>reconcileInstanceTags\<close> nor \<^verbatim>\<open>reconcileEBSVolumeTags\<close> makes a \<^verbatim>\<open>DeleteTags\<close> call.
\<close>

theorem instance_and_volume_tags_never_deleted:
  "instanceUntagKeys ngtags inst = []
   \<and> volumeUntagKeys clusterName name ngtags vol = []
   \<and> filter isDeleteTags (callsSince tr (snd (reconcileInstanceTags fuel lv s ng tr))) = []
   \<and> filter isDeleteTags
       (callsSince tr (snd (reconcileEBSVolumeTags fuel lv s volumeIds ng tr))) = []"
  using instanceUntagKeys_empty volumeUntagKeys_empty reconcileInstanceTags_no_delete
    madeOnly_no_delete[OF reconcileEBSVolumeTags_madeOnly]
  by blast

theorem instance_and_volume_tags_never_deleted_witness:
  "instanceUntagKeys [(''team'', ''a'')]
     (exInstance ''i-1'' ''vol-1'' [Some \<lparr>tag_Key = Some ''Name'', tag_Value = Some ''node''\<rparr>]) = []
   \<and> snd (getTagUpdates [(''Name'', ''node'')] [(''team'', ''a'')]) = [(''team'', ''a'')]
   \<and> fst (getTagUpdates [(''Name'', ''node'')] [(''team'', ''a'')]) = [''Name'']"
  using instance_and_volume_tags_never_deleted[of "[(''team'', ''a'')]"
      "exInstance ''i-1'' ''vol-1'' [Some \<lparr>tag_Key = Some ''Name'', tag_Value = Some ''node''\<rparr>]"]
  by (simp add: getTagUpdates_def needsUpsert_def)

subsection \<open>One instance with one volume, when every call succeeds\<close>

lemma updateECSTags_success:
  assumes "fst (getTagUpdates existing desired) = []"
    and "\<And>h rs ts. CreateTags client h rs ts = None"
  shows "updateECSTags lv client [r] existing desired tr
           = (None, tr @ createTagsCalls lv r (snd (getTagUpdates existing desired)))"
  by (simp add: updateECSTags_no_untag[OF assms(1)] Let_def assms(2) createTagsCalls_def)

lemma volumesLoop_single:
  assumes name: "NodegroupName ng = Some name"
    and ok: "\<And>h rs ts. CreateTags (EC2Client s) h rs ts = None"
  shows "volumesLoop lv s ng ngtags [vol] tr
           = (Continue, tr @ createTagsCalls lv (vol_VolumeId vol)
                               (volumeNewTags (ClusterName s) name ngtags vol))"
proof -
  let ?d0 = "AList.update eksNodeGroupNameTag name
               (AList.update eksClusterNameTag (ClusterName s) [])"
  obtain tags desired1 where c: "copyTags (vol_Tags vol) ([], ?d0) = (tags, desired1)"
    by (cases "copyTags (vol_Tags vol) ([], ?d0)")
  have u: "fst (getTagUpdates tags (overlayTags ngtags desired1)) = []"
    using volumeUntagKeys_empty[of "ClusterName s" name ngtags vol]
    unfolding volumeUntagKeys_def Let_def c by simp
  have n: "volumeNewTags (ClusterName s) name ngtags vol
             = snd (getTagUpdates tags (overlayTags ngtags desired1))"
    unfolding volumeNewTags_def Let_def c by simp
  have "volumesLoop lv s ng ngtags [vol] tr =
          (case updateECSTags lv (EC2Client s) [vol_VolumeId vol] tags
                  (overlayTags ngtags desired1) tr of
             (Some err, tr') \<Rightarrow> (Exit (Return (Some err)), tr')
           | (None, tr') \<Rightarrow> (Continue, tr'))"
    unfolding volumesLoop.simps name option.case Let_def c by simp
  then show ?thesis
    by (simp add: updateECSTags_success[OF u ok] n)
qed

lemma reconcileEBSVolumeTags_single:
  assumes name: "NodegroupName ng = Some name"
    and ok: "\<And>h rs ts. CreateTags (EC2Client s) h rs ts = None"
    and dv: "\<And>h. DescribeVolumes (EC2Client s) h [vid]
                   = Inr \<lparr>dvo_Volumes = [vol], dvo_NextToken = None\<rparr>"
    and fuel: "0 < fuel"
  shows "reconcileEBSVolumeTags fuel lv s [vid] ng tr
           = (Some (Return None),
              tr @ [EC2_DescribeVolumes [vid]]
                 @ createTagsCalls lv (vol_VolumeId vol)
                     (volumeNewTags (ClusterName s) name
                        (ngTags s (ClusterName s) (AdditionalTags s)) vol))"
proof -
  obtain n where n: "fuel = Suc n" using fuel by (cases fuel) auto
  show ?thesis
    by (simp add: reconcileEBSVolumeTags_def dv n volumesLoop_single[OF name ok] Let_def
          del: volumesLoop.simps)
qed

lemma instancesLoop_step:
  assumes name: "NodegroupName ng = Some name"
    and ok: "\<And>h rs ts. CreateTags (EC2Client s) h rs ts = None"
    and v: "volumeIdsOf (inst_BlockDeviceMappings inst) = [vid]"
    and dv: "\<And>h. DescribeVolumes (EC2Client s) h [vid]
                   = Inr \<lparr>dvo_Volumes = [vol], dvo_NextToken = None\<rparr>"
    and fuel: "0 < fuel"
  shows "instancesLoop fuel lv s ng ngtags (inst # rest) tr
           = instancesLoop fuel lv s ng ngtags rest
               (tr @ createTagsCalls lv (inst_InstanceId inst) (instanceNewTags ngtags inst)
                   @ [EC2_DescribeVolumes [vid]]
                   @ createTagsCalls lv (vol_VolumeId vol)
                       (volumeNewTags (ClusterName s) name
                          (ngTags s (ClusterName s) (AdditionalTags s)) vol))"
proof -
  obtain tags desired0 where c: "copyTags (inst_Tags inst) ([], []) = (tags, desired0)"
    by (cases "copyTags (inst_Tags inst) ([], [])")
  have u: "fst (getTagUpdates tags (overlayTags ngtags desired0)) = []"
    using instanceUntagKeys_empty[of ngtags inst]
    unfolding instanceUntagKeys_def Let_def c by simp
  have n: "instanceNewTags ngtags inst = snd (getTagUpdates tags (overlayTags ngtags desired0))"
    unfolding instanceNewTags_def Let_def c by simp
  show ?thesis
    unfolding instancesLoop.simps Let_def c
    by (simp add: updateECSTags_success[OF u ok] v n
          reconcileEBSVolumeTags_single[OF name ok dv fuel])
qed

lemma instancesLoop_append:
  "instancesLoop fuel lv s ng ngtags (xs @ ys) tr
     = (case instancesLoop fuel lv s ng ngtags xs tr of
          (Some Continue, tr') \<Rightarrow> instancesLoop fuel lv s ng ngtags ys tr'
        | other \<Rightarrow> other)"
proof (induction xs arbitrary: tr)
  case Nil
  then show ?case by simp
next
  case (Cons x xs)
  show ?case
    by (simp add: Cons.IH Let_def split: prod.splits option.splits outcome.splits flow.splits)
qed

lemma reservationsLoop_concat:
  "reservationsLoop fuel lv s ng ngtags rs tr
     = instancesLoop fuel lv s ng ngtags (concat (map res_Instances rs)) tr"
proof (induction rs arbitrary: tr)
  case Nil
  then show ?case by simp
next
  case (Cons r rs)
  show ?case
    by (simp add: instancesLoop_append Cons.IH split: prod.splits option.splits flow.splits)
qed

subsection \<open>Pages\<close>

lemma instancePagesLoop_stuck:
  assumes tok: "dio_NextToken output \<noteq> None"
    and body: "\<And>tr. fst (reservationsLoop fuel lv s ng ngtags (dio_Reservations output) tr) = None
                 \<or> fst (reservationsLoop fuel lv s ng ngtags (dio_Reservations output) tr)
                     = Some Continue"
  shows "fst (instancePagesLoop n fuel lv s ng ngtags output tr) = None"
proof (induction n arbitrary: tr)
  case 0
  then show ?case by simp
next
  case (Suc n)
  obtain fl tr1 where r: "reservationsLoop fuel lv s ng ngtags (dio_Reservations output) tr = (fl, tr1)"
    by (cases "reservationsLoop fuel lv s ng ngtags (dio_Reservations output) tr")
  from body[of tr] r have "fl = None \<or> fl = Some Continue" by simp
  then show ?case
  proof
    assume "fl = None"
    then show ?thesis using r by simp
  next
    assume "fl = Some Continue"
    then show ?thesis using r tok Suc.IH[of tr1] by simp
  qed
qed

lemma updateECSTags_ok:
  assumes "fst (getTagUpdates existing desired) = []"
    and "\<And>h rs ts. CreateTags client h rs ts = None"
  shows "fst (updateECSTags lv client rs existing desired tr) = None"
  by (simp add: updateECSTags_no_untag[OF assms(1)] Let_def assms(2))

lemma paged_CreateTags: "CreateTags (EC2Client (exService pagedEC2)) h rs ts = None"
  by (simp add: exService_def pagedEC2_def exEC2_def)

lemma paged_DescribeVolumes:
  "DescribeVolumes (EC2Client (exService pagedEC2)) h [] = Inr \<lparr>dvo_Volumes = [], dvo_NextToken = None\<rparr>"
  by (simp add: exService_def pagedEC2_def exEC2_def)

lemma paged_volumes:
  "fst (reconcileEBSVolumeTags fuel lv (exService pagedEC2) [] ng tr) = None
   \<or> fst (reconcileEBSVolumeTags fuel lv (exService pagedEC2) [] ng tr) = Some (Return None)"
  by (cases fuel) (simp_all add: reconcileEBSVolumeTags_def paged_DescribeVolumes)

lemma paged_instancesLoop:
  "fst (instancesLoop fuel lv (exService pagedEC2) ng ngtags
          [\<lparr>inst_InstanceId = i, inst_Tags = [], inst_BlockDeviceMappings = []\<rparr>] tr) = None
   \<or> fst (instancesLoop fuel lv (exService pagedEC2) ng ngtags
          [\<lparr>inst_InstanceId = i, inst_Tags = [], inst_BlockDeviceMappings = []\<rparr>] tr) = Some Continue"
proof -
  let ?s = "exService pagedEC2"
  have u: "fst (getTagUpdates [] (overlayTags ngtags [])) = []"
    by (simp add: no_untagKeys)
  obtain e tr1 where r: "updateECSTags lv (EC2Client ?s) [i] [] (overlayTags ngtags []) tr = (e, tr1)"
    by (cases "updateECSTags lv (EC2Client ?s) [i] [] (overlayTags ngtags []) tr")
  have e: "e = None"
    using updateECSTags_ok[OF u paged_CreateTags, of lv "[i]" tr] r by simp
  obtain res tr2 where v: "reconcileEBSVolumeTags fuel lv ?s [] ng tr1 = (res, tr2)"
    by (cases "reconcileEBSVolumeTags fuel lv ?s [] ng tr1")
  from paged_volumes[of fuel lv ng tr1] v have "res = None \<or> res = Some (Return None)" by simp
  then show ?thesis
    using r e v by (auto simp: copyTags_def volumeIdsOf_def)
qed

lemma paged_first_response:
  "DescribeInstances (EC2Client (exService pagedEC2))
     [ASG_DescribeAutoScalingGroups [Some ''asg-1'', Some ''asg-2'']] ids
   = Inr \<lparr>dio_Reservations =
            [\<lparr>res_Instances = [\<lparr>inst_InstanceId = Some ''i-1'', inst_Tags = [],
                                 inst_BlockDeviceMappings = []\<rparr>]\<rparr>],
          dio_NextToken = Some ''next''\<rparr>"
  by (simp add: exService_def pagedEC2_def exEC2_def isDescribeInstances_def)

lemma madeOnly_no_describeInstances:
  assumes "madeOnly isCreateTagsOrDescribeVolumes tr tr'"
  shows "filter isDescribeInstances tr' = filter isDescribeInstances tr"
proof -
  obtain new where new: "tr' = tr @ new" "list_all isCreateTagsOrDescribeVolumes new"
    using assms by (auto simp: madeOnly_iff)
  have "\<not> isDescribeInstances c" if "isCreateTagsOrDescribeVolumes c" for c
    using that by (cases c) (simp_all add: isCreateTagsOrDescribeVolumes_def isDescribeInstances_def)
  then have "filter isDescribeInstances new = []"
    using new(2) by (auto simp: filter_empty_conv list_all_iff)
  then show ?thesis using new(1) by simp
qed

lemma paged_instances_stuck:
  "fst (reconcileInstanceTags fuel lv (exService pagedEC2) exNodegroup []) = None
   \<and> filter isDescribeInstances
        (snd (reconcileInstanceTags fuel lv (exService pagedEC2) exNodegroup []))
      = [EC2_DescribeInstances [Some ''i-1'', Some ''i-2'']]"
proof -
  let ?s = "exService pagedEC2"
  let ?ngtags = "ngTags ?s (ClusterName ?s) (AdditionalTags ?s)"
  let ?out = "\<lparr>dio_Reservations =
            [\<lparr>res_Instances = [\<lparr>inst_InstanceId = Some ''i-1'', inst_Tags = [],
                                 inst_BlockDeviceMappings = []\<rparr>]\<rparr>],
          dio_NextToken = Some ''next''\<rparr>"
  let ?tr2 = "[ASG_DescribeAutoScalingGroups [Some ''asg-1'', Some ''asg-2''],
              EC2_DescribeInstances [Some ''i-1'', Some ''i-2'']]"
  have asg: "DescribeAutoScalingGroups (AutoscalingClient ?s) [] [Some ''asg-1'', Some ''asg-2'']
               = Inr [exGroup ''asg-1'' ''i-1'', exGroup ''asg-2'' ''i-2'']"
    by (simp add: exService_def exASG_def)
  have unfold: "reconcileInstanceTags fuel lv ?s exNodegroup []
                  = instancePagesLoop fuel fuel lv ?s exNodegroup ?ngtags ?out ?tr2"
    by (simp add: reconcileInstanceTags_def exNodegroup_def asg paged_first_response exGroup_def)
  have body: "fst (reservationsLoop fuel lv ?s exNodegroup ?ngtags (dio_Reservations ?out) tr) = None
            \<or> fst (reservationsLoop fuel lv ?s exNodegroup ?ngtags (dio_Reservations ?out) tr)
                = Some Continue" for tr
    using paged_instancesLoop[of fuel lv exNodegroup ?ngtags "Some ''i-1''" tr]
    by (auto split: prod.splits option.splits flow.splits)
  have 1: "fst (instancePagesLoop fuel fuel lv ?s exNodegroup ?ngtags ?out ?tr2) = None"
    by (rule instancePagesLoop_stuck[OF _ body]) simp
  have 2: "filter isDescribeInstances
             (snd (instancePagesLoop fuel fuel lv ?s exNodegroup ?ngtags ?out ?tr2))
           = filter isDescribeInstances ?tr2"
    by (rule madeOnly_no_describeInstances[OF instancePagesLoop_madeOnly])
  show ?thesis
    unfolding unfold using 1 2 by (simp add: isDescribeInstances_def)
qed

lemma volumePagesLoop_stuck:
  assumes tok: "dvo_NextToken output \<noteq> None"
    and body: "\<And>tr. fst (volumesLoop lv s ng ngtags (dvo_Volumes output) tr) = Continue"
  shows "fst (volumePagesLoop n lv s ng ngtags output tr) = None"
proof (induction n arbitrary: tr)
  case 0
  then show ?case by simp
next
  case (Suc n)
  obtain fl tr1 where r: "volumesLoop lv s ng ngtags (dvo_Volumes output) tr = (fl, tr1)"
    by (cases "volumesLoop lv s ng ngtags (dvo_Volumes output) tr")
  from body[of tr] r have "fl = Continue" by simp
  then show ?case using r tok Suc.IH[of tr1] by simp
qed

lemma pagedVolumes_stuck:
  "fst (reconcileEBSVolumeTags fuel lv (exService pagedVolumesEC2) [Some ''vol-1''] exNodegroup [])
     = None"
proof -
  let ?s = "exService pagedVolumesEC2"
  let ?out = "\<lparr>dvo_Volumes = [\<lparr>vol_VolumeId = Some ''vol-1'', vol_Tags = []\<rparr>],
               dvo_NextToken = Some ''next''\<rparr>"
  have name: "NodegroupName exNodegroup = Some ''ng-1''" by (simp add: exNodegroup_def)
  have ok: "CreateTags (EC2Client ?s) h rs ts = None" for h rs ts
    by (simp add: exService_def pagedVolumesEC2_def exEC2_def)
  have dv: "DescribeVolumes (EC2Client ?s) [] [Some ''vol-1''] = Inr ?out"
    by (simp add: exService_def pagedVolumesEC2_def exEC2_def)
  have body: "fst (volumesLoop lv ?s exNodegroup ngtags (dvo_Volumes ?out) tr) = Continue"
    for ngtags tr
    by (simp add: volumesLoop_single[OF name ok] del: volumesLoop.simps)
  have "fst (volumePagesLoop fuel lv ?s exNodegroup
               (ngTags ?s (ClusterName ?s) (AdditionalTags ?s)) ?out
               [EC2_DescribeVolumes [Some ''vol-1'']]) = None"
    by (rule volumePagesLoop_stuck[OF _ body]) simp
  then show ?thesis
    by (simp add: reconcileEBSVolumeTags_def dv Let_def)
qed

text \<open>
  Claim C4 fails on the code. With a \<^verbatim>\<open>DescribeInstances\<close> client that has three pages,
  \<^verbatim>\<open>reconcileInstanceTags\<close> asks for the instances once, runs the differ on the first page
  and, whatever the fuel, has not returned: the loop tests \<^verbatim>\<open>NextToken\<close> of the first
  response again and never asks for another page. \<^verbatim>\<open>reconcileEBSVolumeTags\<close> does the
  same with a \<^verbatim>\<open>DescribeVolumes\<close> response that carries a token.
\<close>

theorem page_loops_stay_on_first_page:
  "fst (reconcileInstanceTags fuel lv (exService pagedEC2) exNodegroup []) = None
   \<and> filter isDescribeInstances
        (snd (reconcileInstanceTags fuel lv (exService pagedEC2) exNodegroup []))
      = [EC2_DescribeInstances [Some ''i-1'', Some ''i-2'']]
   \<and> fst (reconcileEBSVolumeTags fuel lv (exService pagedVolumesEC2) [Some ''vol-1'']
             exNodegroup []) = None"
  using paged_instances_stuck[of fuel lv] pagedVolumes_stuck[of fuel lv] by blast

subsection \<open>The cascade of a nodegroup\<close>

lemma madeOnly_append: "list_all Q new \<Longrightarrow> madeOnly Q tr (tr @ new)"
  by (auto simp: madeOnly_iff)

lemma madeOnly_weaken:
  "madeOnly Q a b \<Longrightarrow> (\<And>c. Q c \<Longrightarrow> Q' c) \<Longrightarrow> madeOnly Q' a b"
  by (auto simp: madeOnly_def list_all_iff)

lemma reconcileInstanceTags_madeOnly:
  "madeOnly isDescribeOrCreateTags tr (snd (reconcileInstanceTags fuel lv s ng tr))"
proof (cases "Resources ng")
  case None
  then show ?thesis by (simp add: reconcileInstanceTags_def madeOnly_refl)
next
  case (Some resources)
  let ?names = "map eksasg_Name (AutoScalingGroups resources)"
  let ?tr1 = "tr @ [ASG_DescribeAutoScalingGroups ?names]"
  have m1: "madeOnly isDescribeOrCreateTags tr ?tr1"
    by (simp add: madeOnly_snoc madeOnly_refl isDescribeOrCreateTags_def)
  show ?thesis
  proof (cases "DescribeAutoScalingGroups (AutoscalingClient s) tr ?names")
    case (Inl err)
    then show ?thesis using Some m1 by (simp add: reconcileInstanceTags_def)
  next
    case (Inr groups)
    let ?ids = "concat (map (\<lambda>group. map asgi_InstanceId (asg_Instances group)) groups)"
    let ?tr2 = "?tr1 @ [EC2_DescribeInstances ?ids]"
    have m2: "madeOnly isDescribeOrCreateTags tr ?tr2"
      using madeOnly_append[of isDescribeOrCreateTags
              "[ASG_DescribeAutoScalingGroups ?names, EC2_DescribeInstances ?ids]" tr]
      by (simp add: isDescribeOrCreateTags_def)
    show ?thesis
    proof (cases "DescribeInstances (EC2Client s) ?tr1 ?ids")
      case (Inl err)
      then show ?thesis using Some Inr m2 by (simp add: reconcileInstanceTags_def)
    next
      case (Inr out)
      let ?res = "instancePagesLoop fuel fuel lv s ng (ngTags s (ClusterName s) (AdditionalTags s))
                    out ?tr2"
      have "madeOnly isCreateTagsOrDescribeVolumes ?tr2 (snd ?res)"
        by (rule instancePagesLoop_madeOnly)
      then have "madeOnly isDescribeOrCreateTags ?tr2 (snd ?res)"
      proof (rule madeOnly_weaken)
        fix c assume "isCreateTagsOrDescribeVolumes c"
        then show "isDescribeOrCreateTags c"
          by (cases c) (simp_all add: isCreateTagsOrDescribeVolumes_def isDescribeOrCreateTags_def)
      qed
      with m2 have "madeOnly isDescribeOrCreateTags tr (snd ?res)" by (rule madeOnly_trans)
      moreover have "snd (reconcileInstanceTags fuel lv s ng tr) = snd ?res"
        using Some \<open>DescribeAutoScalingGroups (AutoscalingClient s) tr ?names = Inr groups\<close> Inr
        by (simp add: reconcileInstanceTags_def Let_def)
      ultimately show ?thesis by simp
    qed
  qed
qed

lemma updateTags_madeOnly:
  "madeOnly isEKSTagCall tr (snd (updateTags client arn existing desired tr))"
proof -
  obtain untagKeys newTags where d: "getTagUpdates existing desired = (untagKeys, newTags)"
    by (cases "getTagUpdates existing desired")
  have 1: "madeOnly isEKSTagCall tr (tr @ [EKS_TagResource arn newTags])"
    by (rule madeOnly_append) (simp add: isEKSTagCall_def)
  have 2: "madeOnly isEKSTagCall tr (tr @ [EKS_UntagResource arn untagKeys])"
    by (rule madeOnly_append) (simp add: isEKSTagCall_def)
  have 3: "madeOnly isEKSTagCall tr
             (tr @ [EKS_TagResource arn newTags, EKS_UntagResource arn untagKeys])"
    by (rule madeOnly_append) (simp add: isEKSTagCall_def)
  show ?thesis
    using 1 2 3 by (simp add: updateTags_cases[OF d] madeOnly_refl split: option.splits)
qed

lemma reconcileTags_never_tags_groups:
  "filter isASGTagUpdate
     (callsSince tr (snd (NodegroupService_reconcileTags fuel lv s ng tr))) = []"
proof -
  let ?Q = "\<lambda>c. isEKSTagCall c \<or> isDescribeOrCreateTags c"
  obtain e tr0 where u: "updateTags (EKSClient s) (NodegroupArn ng) (StringValueMap (ng_Tags ng))
                           (ngTags s (ClusterName s) (AdditionalTags s)) tr = (e, tr0)"
    by (cases "updateTags (EKSClient s) (NodegroupArn ng) (StringValueMap (ng_Tags ng))
                           (ngTags s (ClusterName s) (AdditionalTags s)) tr")
  have m0: "madeOnly ?Q tr tr0"
    using updateTags_madeOnly[of tr "EKSClient s" "NodegroupArn ng" "StringValueMap (ng_Tags ng)"
            "ngTags s (ClusterName s) (AdditionalTags s)"] u
    by (auto intro: madeOnly_weaken)
  have m1: "madeOnly ?Q tr0 (snd (reconcileInstanceTags fuel lv s ng tr0))"
    using reconcileInstanceTags_madeOnly[of tr0 fuel lv s ng] by (auto intro: madeOnly_weaken)
  have "madeOnly ?Q tr (snd (NodegroupService_reconcileTags fuel lv s ng tr))"
  proof (cases e)
    case None
    then show ?thesis
      using u madeOnly_trans[OF m0 m1] by (simp add: NodegroupService_reconcileTags_def)
  next
    case (Some err)
    then show ?thesis using u m0 by (simp add: NodegroupService_reconcileTags_def)
  qed
  moreover have "\<not> isASGTagUpdate c" if "?Q c" for c
    using that
    by (cases c) (simp_all add: isEKSTagCall_def isDescribeOrCreateTags_def isASGTagUpdate_def)
  ultimately show ?thesis
    by (auto simp: madeOnly_def callsSince_def filter_empty_conv list_all_iff)
qed

text \<open>
  Claim C5, as stated, fails: for a nodegroup with two groups, each with one instance
  with one volume, whose instances and volumes carry the desired tags already and whose
  groups lack a desired tag, \<^verbatim>\<open>NodegroupService.reconcileTags\<close> returns \<^verbatim>\<open>nil\<close> after the
  describe calls alone, with no tag call for a group, an instance or a volume.
\<close>

theorem cascade_converged_no_tag_call:
  "NodegroupService_reconcileTags 1 PerLoop (exService (exEC2 exNodegroupTags exVolumeTags))
     exNodegroup []
   = (Some (Return None),
      [ASG_DescribeAutoScalingGroups [Some ''asg-1'', Some ''asg-2''],
       EC2_DescribeInstances [Some ''i-1'', Some ''i-2''],
       EC2_DescribeVolumes [Some ''vol-1''],
       EC2_DescribeVolumes [Some ''vol-2'']])"
  by (simp add: NodegroupService_reconcileTags_def reconcileInstanceTags_def
        reconcileEBSVolumeTags_def updateTags_def updateECSTags_def getTagUpdates_def
        needsUpsert_def StringValueMap_def copyTags_def overlayTags_def volumeIdsOf_def
        exService_def exEC2_def exASG_def exGroup_def exInstance_def exNodegroup_def
        exNodegroupTags_def exVolumeTags_def exNgTags_def exCloudProviderTagKey_def okEKS_def
        eksClusterNameTag_def eksNodeGroupNameTag_def)

lemma cascade_panics_without_name:
  "NodegroupService_reconcileTags 1 PerLoop (exService (exEC2 [] []))
     (exNodegroup\<lparr>NodegroupName := None\<rparr>) []
   = (Some Panic,
      [ASG_DescribeAutoScalingGroups [Some ''asg-1'', Some ''asg-2''],
       EC2_DescribeInstances [Some ''i-1'', Some ''i-2''],
       EC2_CreateTags [Some ''i-1'']
         (createTagsInput PerLoop [(''team'', ''a''), (''kubernetes.io/cluster/c1'', ''owned'')]),
       EC2_DescribeVolumes [Some ''vol-1'']])"
  by (simp add: NodegroupService_reconcileTags_def reconcileInstanceTags_def
        reconcileEBSVolumeTags_def updateTags_def updateECSTags_def getTagUpdates_def
        needsUpsert_def StringValueMap_def copyTags_def overlayTags_def volumeIdsOf_def
        exService_def exEC2_def exASG_def exGroup_def exInstance_def exNodegroup_def
        exNgTags_def exCloudProviderTagKey_def okEKS_def)

text \<open>
  Claim C5, amended. For a nodegroup whose name is set (\<^verbatim>\<open>NodegroupName\<close> is not \<^verbatim>\<open>nil\<close>)
  and that has two groups, each with one instance with one volume, when the update of
  the nodegroup's own tags succeeds, the groups are described with one instance each,
  the two instances are described on a single page, each instance has one block device
  with a volume, each volume is described on a single page, and every \<^verbatim>\<open>CreateTags\<close> call
  succeeds, \<^verbatim>\<open>NodegroupService.reconcileTags\<close> returns \<^verbatim>\<open>nil\<close>. After the update of the
  nodegroup's own tags it describes the groups and the instances and then, for the first
  instance and after it for the second: makes one \<^verbatim>\<open>CreateTags\<close> call for the instance if
  the differ returns a pair for it and none otherwise, describes the volume, and makes
  one \<^verbatim>\<open>CreateTags\<close> call for the volume if the differ returns a pair for it and none
  otherwise. It makes no other call: none that tags a group and none that deletes a tag
  (for every service and nodegroup it makes no call that tags a group,
  \<open>reconcileTags_never_tags_groups\<close>). Without a name the reconciliation panics at line
  191 when it reaches the first volume (\<open>cascade_panics_without_name\<close>).
\<close>

theorem cascade_two_groups:
  assumes res: "Resources ng = Some \<lparr>AutoScalingGroups = [a1, a2]\<rparr>"
    and name: "NodegroupName ng = Some name"
    and own: "updateTags (EKSClient s) (NodegroupArn ng) (StringValueMap (ng_Tags ng))
                (ngTags s (ClusterName s) (AdditionalTags s)) tr = (None, tr0)"
    and groups: "DescribeAutoScalingGroups (AutoscalingClient s) tr0
                   [eksasg_Name a1, eksasg_Name a2] = Inr [g1, g2]"
    and g1: "asg_Instances g1 = [x1]"
    and g2: "asg_Instances g2 = [x2]"
    and insts: "DescribeInstances (EC2Client s)
                  (tr0 @ [ASG_DescribeAutoScalingGroups [eksasg_Name a1, eksasg_Name a2]])
                  [asgi_InstanceId x1, asgi_InstanceId x2] = Inr out"
    and page: "concat (map res_Instances (dio_Reservations out)) = [i1, i2]"
    and last: "dio_NextToken out = None"
    and v1: "volumeIdsOf (inst_BlockDeviceMappings i1) = [vid1]"
    and v2: "volumeIdsOf (inst_BlockDeviceMappings i2) = [vid2]"
    and dv1: "\<And>h. DescribeVolumes (EC2Client s) h [vid1]
                    = Inr \<lparr>dvo_Volumes = [vol1], dvo_NextToken = None\<rparr>"
    and dv2: "\<And>h. DescribeVolumes (EC2Client s) h [vid2]
                    = Inr \<lparr>dvo_Volumes = [vol2], dvo_NextToken = None\<rparr>"
    and ok: "\<And>h rs ts. CreateTags (EC2Client s) h rs ts = None"
    and fuel: "0 < fuel"
  shows "NodegroupService_reconcileTags fuel lv s ng tr
         = (Some (Return None),
            tr0 @ [ASG_DescribeAutoScalingGroups [eksasg_Name a1, eksasg_Name a2],
                   EC2_DescribeInstances [asgi_InstanceId x1, asgi_InstanceId x2]]
                @ createTagsCalls lv (inst_InstanceId i1)
                    (instanceNewTags (ngTags s (ClusterName s) (AdditionalTags s)) i1)
                @ [EC2_DescribeVolumes [vid1]]
                @ createTagsCalls lv (vol_VolumeId vol1)
                    (volumeNewTags (ClusterName s) name
                       (ngTags s (ClusterName s) (AdditionalTags s)) vol1)
                @ createTagsCalls lv (inst_InstanceId i2)
                    (instanceNewTags (ngTags s (ClusterName s) (AdditionalTags s)) i2)
                @ [EC2_DescribeVolumes [vid2]]
                @ createTagsCalls lv (vol_VolumeId vol2)
                    (volumeNewTags (ClusterName s) name
                       (ngTags s (ClusterName s) (AdditionalTags s)) vol2))"
proof -
  let ?ngtags = "ngTags s (ClusterName s) (AdditionalTags s)"
  let ?tr2 = "tr0 @ [ASG_DescribeAutoScalingGroups [eksasg_Name a1, eksasg_Name a2],
                     EC2_DescribeInstances [asgi_InstanceId x1, asgi_InstanceId x2]]"
  obtain n where n: "fuel = Suc n" using fuel by (cases fuel) auto
  have loop: "instancesLoop fuel lv s ng ?ngtags [i1, i2] tr' =
      (Some Continue,
       tr' @ createTagsCalls lv (inst_InstanceId i1) (instanceNewTags ?ngtags i1)
           @ [EC2_DescribeVolumes [vid1]]
           @ createTagsCalls lv (vol_VolumeId vol1) (volumeNewTags (ClusterName s) name ?ngtags vol1)
           @ createTagsCalls lv (inst_InstanceId i2) (instanceNewTags ?ngtags i2)
           @ [EC2_DescribeVolumes [vid2]]
           @ createTagsCalls lv (vol_VolumeId vol2) (volumeNewTags (ClusterName s) name ?ngtags vol2))"
    for tr'
    unfolding instancesLoop_step[OF name ok v1 dv1 fuel] instancesLoop_step[OF name ok v2 dv2 fuel]
    by simp
  have pages: "instancePagesLoop fuel fuel lv s ng ?ngtags out ?tr2 =
      (Some (Return None),
       ?tr2 @ createTagsCalls lv (inst_InstanceId i1) (instanceNewTags ?ngtags i1)
           @ [EC2_DescribeVolumes [vid1]]
           @ createTagsCalls lv (vol_VolumeId vol1) (volumeNewTags (ClusterName s) name ?ngtags vol1)
           @ createTagsCalls lv (inst_InstanceId i2) (instanceNewTags ?ngtags i2)
           @ [EC2_DescribeVolumes [vid2]]
           @ createTagsCalls lv (vol_VolumeId vol2) (volumeNewTags (ClusterName s) name ?ngtags vol2))"
    unfolding n instancePagesLoop.simps reservationsLoop_concat page
    unfolding n[symmetric] loop
    by (simp add: last)
  have "reconcileInstanceTags fuel lv s ng tr0 = instancePagesLoop fuel fuel lv s ng ?ngtags out ?tr2"
    using insts by (simp add: reconcileInstanceTags_def res groups g1 g2)
  then show ?thesis
    by (simp add: NodegroupService_reconcileTags_def own pages)
qed

theorem cascade_two_groups_witness:
  "NodegroupService_reconcileTags 1 PerLoop (exService (exEC2 [] [])) exNodegroup []
   = (Some (Return None),
      [ASG_DescribeAutoScalingGroups [Some ''asg-1'', Some ''asg-2''],
       EC2_DescribeInstances [Some ''i-1'', Some ''i-2''],
       EC2_CreateTags [Some ''i-1'']
         (createTagsInput PerLoop [(''team'', ''a''), (''kubernetes.io/cluster/c1'', ''owned'')]),
       EC2_DescribeVolumes [Some ''vol-1''],
       EC2_CreateTags [Some ''vol-1'']
         (createTagsInput PerLoop
            [(''eks:cluster-name'', ''c1''), (''eks:nodegroup-name'', ''ng-1''),
             (''team'', ''a''), (''kubernetes.io/cluster/c1'', ''owned'')]),
       EC2_CreateTags [Some ''i-2'']
         (createTagsInput PerLoop [(''team'', ''a''), (''kubernetes.io/cluster/c1'', ''owned'')]),
       EC2_DescribeVolumes [Some ''vol-2''],
       EC2_CreateTags [Some ''vol-2'']
         (createTagsInput PerLoop
            [(''eks:cluster-name'', ''c1''), (''eks:nodegroup-name'', ''ng-1''),
             (''team'', ''a''), (''kubernetes.io/cluster/c1'', ''owned'')])])"
proof -
  let ?s = "exService (exEC2 [] [])"
  let ?out = "\<lparr>dio_Reservations =
                 [\<lparr>res_Instances = [exInstance ''i-1'' ''vol-1'' []]\<rparr>,
                  \<lparr>res_Instances = [exInstance ''i-2'' ''vol-2'' []]\<rparr>],
               dio_NextToken = None\<rparr>"
  have res: "Resources exNodegroup
      = Some \<lparr>AutoScalingGroups = [\<lparr>eksasg_Name = Some ''asg-1''\<rparr>, \<lparr>eksasg_Name = Some ''asg-2''\<rparr>]\<rparr>"
    by (simp add: exNodegroup_def)
  have name: "NodegroupName exNodegroup = Some ''ng-1''" by (simp add: exNodegroup_def)
  have own: "updateTags (EKSClient ?s) (NodegroupArn exNodegroup)
               (StringValueMap (ng_Tags exNodegroup))
               (ngTags ?s (ClusterName ?s) (AdditionalTags ?s)) [] = (None, [])"
    by (simp add: updateTags_def getTagUpdates_def needsUpsert_def StringValueMap_def
          exService_def exNodegroup_def exNgTags_def exCloudProviderTagKey_def)
  have groups: "DescribeAutoScalingGroups (AutoscalingClient ?s) []
                  [eksasg_Name \<lparr>eksasg_Name = Some ''asg-1''\<rparr>,
                   eksasg_Name \<lparr>eksasg_Name = Some ''asg-2''\<rparr>]
                = Inr [exGroup ''asg-1'' ''i-1'', exGroup ''asg-2'' ''i-2'']"
    by (simp add: exService_def exASG_def)
  have g1: "asg_Instances (exGroup ''asg-1'' ''i-1'') = [\<lparr>asgi_InstanceId = Some ''i-1''\<rparr>]"
    by (simp add: exGroup_def)
  have g2: "asg_Instances (exGroup ''asg-2'' ''i-2'') = [\<lparr>asgi_InstanceId = Some ''i-2''\<rparr>]"
    by (simp add: exGroup_def)
  have insts: "DescribeInstances (EC2Client ?s)
                 ([] @ [ASG_DescribeAutoScalingGroups
                          [eksasg_Name \<lparr>eksasg_Name = Some ''asg-1''\<rparr>,
                           eksasg_Name \<lparr>eksasg_Name = Some ''asg-2''\<rparr>]])
                 [asgi_InstanceId \<lparr>asgi_InstanceId = Some ''i-1''\<rparr>,
                  asgi_InstanceId \<lparr>asgi_InstanceId = Some ''i-2''\<rparr>] = Inr ?out"
    by (simp add: exService_def exEC2_def)
  have page: "concat (map res_Instances (dio_Reservations ?out))
                = [exInstance ''i-1'' ''vol-1'' [], exInstance ''i-2'' ''vol-2'' []]"
    by simp
  have last: "dio_NextToken ?out = None" by simp
  have v1: "volumeIdsOf (inst_BlockDeviceMappings (exInstance ''i-1'' ''vol-1'' [])) = [Some ''vol-1'']"
    by (simp add: volumeIdsOf_def exInstance_def)
  have v2: "volumeIdsOf (inst_BlockDeviceMappings (exInstance ''i-2'' ''vol-2'' [])) = [Some ''vol-2'']"
    by (simp add: volumeIdsOf_def exInstance_def)
  have dv1: "DescribeVolumes (EC2Client ?s) h [Some ''vol-1'']
               = Inr \<lparr>dvo_Volumes = [\<lparr>vol_VolumeId = Some ''vol-1'', vol_Tags = []\<rparr>],
                      dvo_NextToken = None\<rparr>" for h
    by (simp add: exService_def exEC2_def)
  have dv2: "DescribeVolumes (EC2Client ?s) h [Some ''vol-2'']
               = Inr \<lparr>dvo_Volumes = [\<lparr>vol_VolumeId = Some ''vol-2'', vol_Tags = []\<rparr>],
                      dvo_NextToken = None\<rparr>" for h
    by (simp add: exService_def exEC2_def)
  have ok: "CreateTags (EC2Client ?s) h rs ts = None" for h rs ts
    by (simp add: exService_def exEC2_def)
  have fuel: "0 < (1::nat)" by simp
  have ngt: "ngTags ?s (ClusterName ?s) (AdditionalTags ?s)
               = [(''team'', ''a''), (''kubernetes.io/cluster/c1'', ''owned'')]"
    by (simp add: exService_def exNgTags_def exCloudProviderTagKey_def)
  have cn: "ClusterName ?s = ''c1''" by (simp add: exService_def)
  have it: "instanceNewTags [(''team'', ''a''), (''kubernetes.io/cluster/c1'', ''owned'')]
              (exInstance iid vid []) = [(''team'', ''a''), (''kubernetes.io/cluster/c1'', ''owned'')]"
    for iid vid
    by (simp add: instanceNewTags_def copyTags_def overlayTags_def getTagUpdates_def
          needsUpsert_def exInstance_def)
  have vt: "volumeNewTags ''c1'' ''ng-1'' [(''team'', ''a''), (''kubernetes.io/cluster/c1'', ''owned'')]
              \<lparr>vol_VolumeId = vid, vol_Tags = []\<rparr>
            = [(''eks:cluster-name'', ''c1''), (''eks:nodegroup-name'', ''ng-1''),
               (''team'', ''a''), (''kubernetes.io/cluster/c1'', ''owned'')]" for vid
    by (simp add: volumeNewTags_def copyTags_def overlayTags_def getTagUpdates_def
          needsUpsert_def eksClusterNameTag_def eksNodeGroupNameTag_def)
  show ?thesis
    using cascade_two_groups[OF res name own groups g1 g2 insts page last v1 v2 dv1 dv2 ok fuel,
            of PerLoop, unfolded ngt, unfolded cn, unfolded it vt]
    by (simp add: createTagsCalls_def exInstance_def)
qed

end
